theory Spec2Isabelle
  imports Complex_Main "HOL-Library.Option_ord" "HOL-Library.List_Lexorder"
begin

section \<open>Python strings\<close>

text \<open>
  A Python \<open>str\<close> is a sequence of Unicode code points, and the sources use code points
  beyond Latin-1 (the bullet U+2022 in \<open>query_rewriter.py\<close>, U+0E22 and U+0E07 in
  \<open>references.py\<close>). A string is therefore a list of code points; \<open>str\<close> embeds an
  ASCII literal. \<open>length\<close> counts code points, as Python's \<open>len\<close> does.
\<close>

type_synonym ustring = "nat list"

definition str :: "string \<Rightarrow> ustring" where
  "str s = map of_char s"

text \<open>
  \<open>str.isspace\<close> for a single code point: the characters that \<open>str.strip()\<close> removes and
  that \<open>\s\<close> matches in a \<open>str\<close> pattern of \<open>re\<close>.
\<close>

definition isspace :: "nat \<Rightarrow> bool" where
  "isspace c \<longleftrightarrow>
     (9 \<le> c \<and> c \<le> 13) \<or> (28 \<le> c \<and> c \<le> 32) \<or> c = 133 \<or> c = 160 \<or> c = 5760 \<or>
     (8192 \<le> c \<and> c \<le> 8202) \<or> c = 8232 \<or> c = 8233 \<or> c = 8239 \<or> c = 8287 \<or> c = 12288"

definition lstrip :: "ustring \<Rightarrow> ustring" where
  "lstrip s = dropWhile isspace s"

definition rstrip :: "ustring \<Rightarrow> ustring" where
  "rstrip s = rev (dropWhile isspace (rev s))"

text \<open>\<open>s.strip()\<close>\<close>

definition strip :: "ustring \<Rightarrow> ustring" where
  "strip s = rstrip (lstrip s)"

text \<open>\<open>s.lstrip(chars)\<close>: drops the leading characters that occur in \<open>chars\<close>.\<close>

definition lstrip_chars :: "ustring \<Rightarrow> ustring \<Rightarrow> ustring" where
  "lstrip_chars chars s = dropWhile (\<lambda>c. c \<in> set chars) s"

text \<open>\<open>sep.join(parts)\<close>\<close>

fun join :: "ustring \<Rightarrow> ustring list \<Rightarrow> ustring" where
  "join sep [] = []"
| "join sep [x] = x"
| "join sep (x # y # ys) = x @ sep @ join sep (y # ys)"

text \<open>
  \<open>s.splitlines()\<close>: the line boundaries are LF, VT, FF, CR, CR LF (one boundary), FS, GS,
  RS, NEL, LS and PS; a boundary at the very end opens no further line. The first
  argument is the line read so far.
\<close>

definition islinebreak :: "nat \<Rightarrow> bool" where
  "islinebreak c \<longleftrightarrow> (10 \<le> c \<and> c \<le> 13) \<or> (28 \<le> c \<and> c \<le> 30) \<or> c = 133 \<or> c = 8232 \<or> c = 8233"

fun splitlines_from :: "ustring \<Rightarrow> ustring \<Rightarrow> ustring list" where
  "splitlines_from cur [] = (if cur = [] then [] else [cur])"
| "splitlines_from cur [c] = (if islinebreak c then [cur] else [cur @ [c]])"
| "splitlines_from cur (c # d # ds) =
     (if c = 13 \<and> d = 10 then cur # splitlines_from [] ds
      else if islinebreak c then cur # splitlines_from [] (d # ds)
      else splitlines_from (cur @ [c]) (d # ds))"

definition splitlines :: "ustring \<Rightarrow> ustring list" where
  "splitlines s = splitlines_from [] s"

section \<open>Documents\<close>

text \<open>
  A \<open>Document\<close> has its text and a metadata dict. The keys the pipeline reads are fields
  here, \<open>None\<close> for a key that is missing; the values of \<open>category\<close>, \<open>source_file\<close>,
  \<open>section\<close> and \<open>subsection\<close> are strings and \<open>relevance_score\<close> is a float.
\<close>

record document =
  page_content :: ustring
  md_category :: "ustring option"
  md_source_file :: "ustring option"
  md_section :: "ustring option"
  md_subsection :: "ustring option"
  md_relevance_score :: "real option"

text \<open>\<open>d.get(key, default)\<close> on one key.\<close>

definition get_default :: "'a option \<Rightarrow> 'a \<Rightarrow> 'a" where
  "get_default v d = (case v of None \<Rightarrow> d | Some x \<Rightarrow> x)"

section \<open>references.py\<close>

text \<open>
  \<open>format_reference\<close>. The marker appended before the subsection is the two code points
  U+0E22 U+0E07 followed by a space, as the source file has them. \<open>if subsection:\<close>
  tests truthiness: a missing and an empty subsection are both skipped.
\<close>

definition format_reference :: "document \<Rightarrow> ustring" where
  "format_reference doc =
     (let category = get_default (md_category doc) (str ''unknown'');
          source_file = get_default (md_source_file doc) (str ''unknown_file'');
          section = get_default (md_section doc) (str ''Unknown Doc'');
          subsection = md_subsection doc;
          parts = [category @ str '': '' @ section];
          parts = (case subsection of
                     None \<Rightarrow> parts
                   | Some sub \<Rightarrow> if sub \<noteq> [] then parts @ [[3618, 3591, 32] @ sub] else parts);
          parts = parts @ [str ''file='' @ source_file]
      in join (str '' | '') parts)"

text \<open>\<open>select_top_references\<close>: the loop over \<open>docs[:k]\<close>.\<close>

fun refs_loop :: "document list \<Rightarrow> ustring list \<Rightarrow> ustring list" where
  "refs_loop [] refs = refs"
| "refs_loop (doc # docs) refs = refs_loop docs (refs @ [format_reference doc])"

definition select_top_references :: "document list \<Rightarrow> nat \<Rightarrow> ustring list" where
  "select_top_references docs k = refs_loop (take k docs) []"

text \<open>The document of the reference-formatting example.\<close>

definition doc_password_reset :: document where
  "doc_password_reset =
     \<lparr>page_content = str ''content'',
      md_category = Some (str ''faqs''),
      md_source_file = Some (str ''faqs/reset.md''),
      md_section = Some (str ''Password Reset''),
      md_subsection = Some (str ''Email Flow''),
      md_relevance_score = None\<rparr>"

section \<open>Floats\<close>

text \<open>
  A float is modelled by the real number that it denotes, and comparisons of floats are
  comparisons of these numbers. The arithmetic of the interpreter and of numpy rounds
  its results; it is no code of the repository and is a parameter of the model:
  \<open>sum\<close> over a list of floats, subtraction, true division, \<open>round(x, 3)\<close>, and the
  product of one row of a float32 matrix with a vector (an entry of \<open>matrix @ vector\<close>).
\<close>

record float_ops =
  float_sum :: "real list \<Rightarrow> real"
  float_sub :: "real \<Rightarrow> real \<Rightarrow> real"
  float_div :: "real \<Rightarrow> real \<Rightarrow> real"
  float_round3 :: "real \<Rightarrow> real"
  float_dot :: "real list \<Rightarrow> real list \<Rightarrow> real"

section \<open>retriever.py: retrieval quality\<close>

text \<open>
  The dict returned by \<open>evaluate_retrieval\<close>, also the type of \<open>best_eval\<close> in the
  orchestrator. A key that the dict does not hold is \<open>None\<close>; \<open>quality\<close> is always there.
\<close>

record assessment =
  quality :: ustring
  reason :: "ustring option"
  avg_relevance_score :: "real option"
  top_relevance_score :: "real option"
  score_gap :: "real option"
  num_results :: "nat option"
  categories_covered :: "ustring list option"

text \<open>
  \<open>evaluate_retrieval\<close>. The literals 4.0 and 3.0 are exact; the literal 0.6 denotes the
  float nearest to 6/10, and no float lies between the two, so that a float exceeds the
  one exactly when it exceeds the other.
\<close>

definition evaluate_retrieval :: "float_ops \<Rightarrow> real list \<Rightarrow> document list \<Rightarrow> assessment" where
  "evaluate_retrieval fo scores docs =
     (if scores = [] then
        \<lparr>quality = str ''poor'', reason = Some (str ''no_documents_retrieved''),
         avg_relevance_score = None, top_relevance_score = None, score_gap = None,
         num_results = None, categories_covered = None\<rparr>
      else
        let avg = float_div fo (float_sum fo scores) (real (length scores));
            top = scores ! 0;
            gap = (if length scores > 1 then float_sub fo (scores ! 0) (scores ! 1) else scores ! 0);
            categories = set (map (\<lambda>d. get_default (md_category d) (str ''unknown'')) docs);
            label = (if top > 4 \<and> gap > 6 / 10 then str ''good''
                     else if top > 3 then str ''partially good''
                     else str ''poor'')
        in \<lparr>quality = label, reason = None,
            avg_relevance_score = Some (float_round3 fo avg),
            top_relevance_score = Some (float_round3 fo top),
            score_gap = Some (float_round3 fo gap),
            num_results = Some (length docs),
            categories_covered = Some (sorted_list_of_set categories)\<rparr>)"

text \<open>A document with empty metadata, as the retriever tests build it.\<close>

definition doc_plain :: "ustring \<Rightarrow> document" where
  "doc_plain text =
     \<lparr>page_content = text, md_category = None, md_source_file = None, md_section = None,
      md_subsection = None, md_relevance_score = None\<rparr>"

section \<open>query_rewriter.py\<close>

text \<open>
  Exceptions are values: a function that can raise returns \<open>error + 'a\<close>. The messages
  of the exceptions are left out.
\<close>

datatype error = ValueError | ValidationError

text \<open>
  \<open>QUERY_REWRITE_PROMPT.format(ticket=...)\<close>. The three double quotes around the ticket
  are the code points 34.
\<close>

definition QUERY_REWRITE_PROMPT :: "ustring \<Rightarrow> ustring" where
  "QUERY_REWRITE_PROMPT ticket =
     str ''\<newline>You are a query rewriting assistant for a customer support knowledge base.\<newline>'' @
     str ''\<newline>Rewrite the ticket into clear, retrieval-friendly search queries.\<newline>'' @
     str ''\<newline>Rules:\<newline>'' @
     str ''- Use neutral, professional language\<newline>'' @
     str ''- Use support terminology (domain suspension, WHOIS, abuse, billing, etc.)\<newline>'' @
     str ''- Split multi-issue tickets into multiple queries\<newline>'' @
     str ''- Do NOT answer\<newline>'' @
     str ''- Do NOT add facts\<newline>'' @
     str ''- Output one query per line, no bullets, no numbering\<newline>'' @
     str ''\<newline>Ticket:\<newline>'' @ [34, 34, 34] @ ticket @ [34, 34, 34] @
     str ''\<newline>\<newline>Queries:\<newline>''"

text \<open>
  The pattern \<open>^\d+[\.\)]\s*\<close> of \<open>re.sub\<close>. \<open>match_numbering\<close> matches \<open>\d+[\.\)]\<close> at
  the start of the string and returns what follows the match: the digits are taken
  greedily, a shorter run is tried when the longer one is not followed by \<open>.\<close> (46) or
  \<open>)\<close> (41). The class \<open>\d\<close> of a \<open>str\<close> pattern is the table of Unicode decimal digits
  of the interpreter; it is the parameter \<open>isdigit\<close>. \<open>\s*\<close> then takes all the
  whitespace that follows, and the match is replaced by the empty string. Without
  \<open>re.MULTILINE\<close> the anchor matches at the start of the string only, so at most one
  match is replaced.
\<close>

fun match_numbering :: "(nat \<Rightarrow> bool) \<Rightarrow> ustring \<Rightarrow> ustring option" where
  "match_numbering isdigit [] = None"
| "match_numbering isdigit (c # cs) =
     (if isdigit c then
        (case match_numbering isdigit cs of
           Some r \<Rightarrow> Some r
         | None \<Rightarrow> (case cs of
                      [] \<Rightarrow> None
                    | d # ds \<Rightarrow> if d = 46 \<or> d = 41 then Some ds else None))
      else None)"

definition sub_numbering :: "(nat \<Rightarrow> bool) \<Rightarrow> ustring \<Rightarrow> ustring" where
  "sub_numbering isdigit s =
     (case match_numbering isdigit s of None \<Rightarrow> s | Some r \<Rightarrow> dropWhile isspace r)"

text \<open>
  The first loop of \<open>rewrite_ticket\<close>, over the lines of the response; \<open>lines\<close> is the
  list built so far. The bullet markers are \<open>-\<close> (45) and U+2022 (8226).
\<close>

fun lines_loop :: "(nat \<Rightarrow> bool) \<Rightarrow> ustring list \<Rightarrow> ustring list \<Rightarrow> ustring list" where
  "lines_loop isdigit [] lines = lines"
| "lines_loop isdigit (line # rest) lines =
     (let s = strip line in
      if s = [] then lines_loop isdigit rest lines
      else
        let s = strip (lstrip_chars [45, 8226] s);
            s = sub_numbering isdigit s
        in if s \<noteq> [] then lines_loop isdigit rest (lines @ [s])
           else lines_loop isdigit rest lines)"

text \<open>The second loop, with the set \<open>seen\<close> and the list \<open>out\<close>.\<close>

fun seen_loop :: "ustring list \<Rightarrow> ustring set \<Rightarrow> ustring list \<Rightarrow> ustring list" where
  "seen_loop [] seen out = out"
| "seen_loop (q # qs) seen out =
     (if q \<notin> seen then seen_loop qs (insert q seen) (out @ [q])
      else seen_loop qs seen out)"

text \<open>
  \<open>rewrite_ticket\<close>. The collaborator \<open>llm_call\<close> returns a string or \<open>None\<close>;
  \<open>response or ""\<close> reads \<open>None\<close> as the empty string.
\<close>

definition rewrite_ticket ::
  "(nat \<Rightarrow> bool) \<Rightarrow> ustring \<Rightarrow> (ustring \<Rightarrow> ustring option) \<Rightarrow> error + ustring list" where
  "rewrite_ticket isdigit ticket_text llm_call =
     (if ticket_text = [] \<or> strip ticket_text = [] then Inl ValueError
      else
        let prompt = QUERY_REWRITE_PROMPT (strip ticket_text);
            response = llm_call prompt;
            lines = lines_loop isdigit (splitlines (get_default response [])) [];
            out = seen_loop lines {} []
        in Inr (take 5 out))"

text \<open>
  The words of the specification, to compare the loops with. A string is trimmed when it
  has no whitespace at either end; deduplication that preserves first-seen order keeps
  the first occurrence of every string; a numbering is a numeric list prefix.
\<close>

definition trimmed :: "ustring \<Rightarrow> bool" where
  "trimmed s \<longleftrightarrow> s = [] \<or> (\<not> isspace (hd s) \<and> \<not> isspace (last s))"

fun dedup_first_seen :: "'a list \<Rightarrow> 'a list" where
  "dedup_first_seen [] = []"
| "dedup_first_seen (x # xs) = x # dedup_first_seen (removeAll x xs)"

definition is_numbering :: "(nat \<Rightarrow> bool) \<Rightarrow> ustring \<Rightarrow> bool" where
  "is_numbering isdigit n \<longleftrightarrow>
     (\<exists>ds p ws. n = ds @ [p] @ ws \<and> ds \<noteq> [] \<and> list_all isdigit ds \<and> (p = 46 \<or> p = 41) \<and>
        list_all isspace ws)"

text \<open>
  A line is cleaned to \<open>q\<close> when its trimmed text is a run \<open>b\<close> of bullet markers, then
  a run \<open>w\<close> of whitespace, then a numeric list prefix \<open>n\<close>, then \<open>q\<close>, where \<open>b\<close> and
  \<open>w\<close> are as long as they can be, \<open>n\<close> is there whenever what follows \<open>b\<close> and \<open>w\<close>
  begins with digits and a \<open>.\<close> or \<open>)\<close>, and \<open>n\<close> takes all the whitespace that follows it.
\<close>

definition is_bullet :: "nat \<Rightarrow> bool" where
  "is_bullet c \<longleftrightarrow> c = 45 \<or> c = 8226"

definition has_numbering :: "(nat \<Rightarrow> bool) \<Rightarrow> ustring \<Rightarrow> bool" where
  "has_numbering isdigit s \<longleftrightarrow>
     (\<exists>ds p rest. s = ds @ [p] @ rest \<and> ds \<noteq> [] \<and> list_all isdigit ds \<and> (p = 46 \<or> p = 41))"

definition cleaned :: "(nat \<Rightarrow> bool) \<Rightarrow> ustring \<Rightarrow> ustring \<Rightarrow> bool" where
  "cleaned isdigit line q \<longleftrightarrow>
     (\<exists>b w n. strip line = b @ w @ n @ q \<and>
        list_all is_bullet b \<and> (w @ n @ q = [] \<or> \<not> is_bullet (hd (w @ n @ q))) \<and>
        list_all isspace w \<and> (n @ q = [] \<or> \<not> isspace (hd (n @ q))) \<and>
        (if has_numbering isdigit (n @ q)
         then is_numbering isdigit n \<and> (q = [] \<or> \<not> isspace (hd q))
         else n = []))"

text \<open>ASCII digits, a part of every table of decimal digits, for the examples.\<close>

definition ascii_digit :: "nat \<Rightarrow> bool" where
  "ascii_digit c \<longleftrightarrow> 48 \<le> c \<and> c \<le> 57"

section \<open>schemas.py\<close>

text \<open>The literal type \<open>ActionRequired\<close>: the seven values of the external action.\<close>

definition ActionRequired :: "ustring list" where
  "ActionRequired =
     [str ''none'', str ''customer_action_required'', str ''follow_up_required'',
      str ''escalate_to_support'', str ''escalate_to_abuse_team'', str ''escalate_to_billing'',
      str ''escalate_to_technical'']"

record response =
  answer :: ustring
  references :: "ustring list"
  action_required :: ustring

text \<open>The two field validators; each raises \<open>ValueError\<close> or returns the cleaned value.\<close>

definition answer_must_not_be_blank :: "ustring \<Rightarrow> error + ustring" where
  "answer_must_not_be_blank v = (let v = strip v in if v = [] then Inl ValueError else Inr v)"

definition references_nonempty_strings :: "ustring list \<Rightarrow> error + ustring list" where
  "references_nonempty_strings refs =
     (let cleaned = map strip (filter (\<lambda>r. r \<noteq> [] \<and> strip r \<noteq> []) refs)
      in if length cleaned > 3 then Inl ValueError else Inr cleaned)"

text \<open>
  Constructing \<open>MCPResponse(answer=..., references=..., action_required=...)\<close>. The
  constraints \<open>min_length=1\<close> and \<open>max_length=5000\<close> of the field are checked on the
  value as given; the validator of the field runs after them. The model raises
  \<open>ValidationError\<close> when any field fails.
\<close>

definition MCPResponse :: "ustring \<Rightarrow> ustring list \<Rightarrow> ustring \<Rightarrow> error + response" where
  "MCPResponse ans refs act =
     (let answer_field =
            (if length ans < 1 \<or> 5000 < length ans then Inl ValidationError
             else answer_must_not_be_blank ans);
          references_field = references_nonempty_strings refs;
          action_field = (if act \<in> set ActionRequired then Inr act else Inl ValidationError)
      in case answer_field of
           Inl e \<Rightarrow> Inl ValidationError
         | Inr a \<Rightarrow>
             (case references_field of
                Inl e \<Rightarrow> Inl ValidationError
              | Inr r \<Rightarrow>
                  (case action_field of
                     Inl e \<Rightarrow> Inl ValidationError
                   | Inr c \<Rightarrow> Inr \<lparr>answer = a, references = r, action_required = c\<rparr>)))"

section \<open>action_classifier.py\<close>

definition ACTION_PROTOTYPES :: "(ustring \<times> ustring list) list" where
  "ACTION_PROTOTYPES =
     [(str ''escalate_to_abuse_team'',
       [str ''Domain suspended for phishing, malware, or spam'',
        str ''Abuse complaint requires review by the Abuse Team'',
        str ''Support must not manually reactivate this domain'',
        str ''This suspension is due to a policy violation or abuse report'']),
      (str ''escalate_to_billing'',
       [str ''Billing dispute involving charges, refunds, or invoices'',
        str ''Customer reports duplicate charge or payment failure'',
        str ''Domain suspended due to unpaid invoice or payment issue'',
        str ''Refund eligibility must be reviewed by Billing Team'']),
      (str ''escalate_to_technical'',
       [str ''Domain is active but DNS is not resolving'',
        str ''Service outage or technical failure after renewal'',
        str ''System issue where services remain offline unexpectedly'',
        str ''Technical investigation required for infrastructure failure'']),
      (str ''escalate_to_support'',
       [str ''Domain suspended due to WHOIS verification issues'',
        str ''Customer reports domain still suspended after completing WHOIS verification'',
        str ''Support needs to review account status and system flags'',
        str ''Manual review required for non-abuse domain suspension'']),
      (str ''customer_action_required'',
       [str ''Customer must verify WHOIS email address'',
        str ''Registrant information must be updated to restore domain'',
        str ''User needs to unlock the domain before transfer'',
        str ''Customer must complete remediation steps'']),
      (str ''follow_up_required'',
       [str ''Reactivation will occur after review is completed'',
        str ''Support will monitor and follow up after verification'',
        str ''Additional review time is required before action'']),
      (str ''none'',
       [str ''General informational question about domains'',
        str ''Explanation of policy without required action'',
        str ''Customer is asking how the system works'',
        str ''No action is required from support or customer''])]"

text \<open>
  The embedding model \<open>_MODEL.encode(text, normalize_embeddings=True)\<close> is the
  parameter \<open>encode\<close>; it returns vectors of one fixed dimension, so that the product of
  the prototype matrix with the answer vector is defined: one float per prototype, the
  \<open>float_dot\<close> of its embedding with the answer vector. The prototype embeddings are
  computed once, when the module is loaded.
\<close>

definition PROTOTYPE_EMBEDDINGS :: "(ustring \<Rightarrow> real list) \<Rightarrow> (ustring \<times> real list list) list" where
  "PROTOTYPE_EMBEDDINGS encode = map (\<lambda>(act, texts). (act, map encode texts)) ACTION_PROTOTYPES"

text \<open>\<open>np.max\<close>; it raises on an empty array, which no prototype list is.\<close>

fun np_max :: "real list \<Rightarrow> real" where
  "np_max (x # xs) = fold max xs x"

text \<open>The loop over the prototype embeddings, in the order of the dict.\<close>

fun best_loop ::
  "float_ops \<Rightarrow> (ustring \<times> real list list) list \<Rightarrow> real list \<Rightarrow> ustring \<Rightarrow> real \<Rightarrow>
     ustring \<times> real" where
  "best_loop fo [] answer_emb best_action best_score = (best_action, best_score)"
| "best_loop fo ((act, proto_embs) # rest) answer_emb best_action best_score =
     (let sims = map (\<lambda>p. float_dot fo p answer_emb) proto_embs;
          max_sim = np_max sims
      in if max_sim > best_score then best_loop fo rest answer_emb act max_sim
         else best_loop fo rest answer_emb best_action best_score)"

record decision =
  action :: ustring
  confidence :: real

text \<open>
  \<open>infer_action\<close>. The second component of the result lists the texts that the call
  passes to the embedding model.
\<close>

definition infer_action ::
  "float_ops \<Rightarrow> (ustring \<Rightarrow> real list) \<Rightarrow> ustring \<Rightarrow> real \<Rightarrow> decision \<times> ustring list" where
  "infer_action fo encode ans threshold =
     (if ans = [] \<or> strip ans = [] then (\<lparr>action = str ''no_action'', confidence = 0\<rparr>, [])
      else
        let answer_emb = encode ans;
            best = best_loop fo (PROTOTYPE_EMBEDDINGS encode) answer_emb (str ''no_action'') 0
        in if snd best < threshold then
             (\<lparr>action = str ''no_action'', confidence = float_round3 fo (snd best)\<rparr>, [ans])
           else (\<lparr>action = fst best, confidence = float_round3 fo (snd best)\<rparr>, [ans]))"




section \<open>generation.py\<close>

text \<open>
  The collaborators and library tables that the modules reach through their globals:
  the embedding model, the JSON parser (\<open>json_answer raw\<close> is the string under the key
  \<open>answer\<close> when \<open>raw\<close> parses to an object that has one, \<open>None\<close> when
  \<open>json.loads(raw)["answer"].strip()\<close> raises), the vector store retriever, the
  cross-encoder, the table of decimal digits and the float arithmetic. Each is a function
  of its arguments.
\<close>

record collaborators =
  floats :: float_ops
  encode_text :: "ustring \<Rightarrow> real list"
  json_answer :: "ustring \<Rightarrow> ustring option"
  search :: "ustring \<Rightarrow> nat \<Rightarrow> document list"
  predict :: "ustring \<Rightarrow> ustring \<Rightarrow> real"
  decimal_digit :: "nat \<Rightarrow> bool"

text \<open>\<open>MCP_GENERATION_PROMPT.format(ticket=..., context=...)\<close>\<close>

definition MCP_GENERATION_PROMPT :: "ustring \<Rightarrow> ustring \<Rightarrow> ustring" where
  "MCP_GENERATION_PROMPT ticket context =
     str ''\<newline>You are a support assistant.\<newline>\<newline>TASK:\<newline>'' @
     str ''- Generate a clear, accurate answer to the customer ticket.\<newline>'' @
     str ''- Use the provided documentation context.\<newline>'' @
     str ''- Do NOT cite references.\<newline>'' @
     str ''- Do NOT mention sources.\<newline>'' @
     str ''- Do NOT suggest internal escalation unless explicitly stated in docs.\<newline>'' @
     str ''- If you don'' @ [39] @ str ''t know strictly say that you don'' @ [39] @ str ''t know\<newline>'' @
     str ''\<newline>Return STRICT JSON:\<newline>\<newline>{\<newline>  '' @ [34] @ str ''answer'' @ [34] @ str '': '' @
     [34] @ str ''...'' @ [34] @ str ''\<newline>}\<newline>\<newline>Ticket:\<newline>'' @ ticket @
     str ''\<newline>\<newline>Context:\<newline>'' @ context @ str ''\<newline>''"

text \<open>The context block: the stripped contents joined by blank lines, or the fallback.\<close>

definition build_context :: "document list \<Rightarrow> ustring" where
  "build_context documents =
     (let joined = join (str ''\<newline>\<newline>'') (map (\<lambda>doc. strip (page_content doc)) documents)
      in if joined = [] then str ''No relevant documentation found.'' else joined)"

definition generate_answer ::
  "collaborators \<Rightarrow> ustring \<Rightarrow> document list \<Rightarrow> (ustring \<Rightarrow> ustring option) \<Rightarrow> error + response" where
  "generate_answer env ticket_text documents llm_call =
     (if ticket_text = [] \<or> strip ticket_text = [] then Inl ValueError
      else
        let context = build_context documents;
            prompt = MCP_GENERATION_PROMPT (strip ticket_text) context;
            raw = llm_call prompt
        in case (case raw of None \<Rightarrow> None | Some r \<Rightarrow> json_answer env r) of
             None \<Rightarrow> Inl ValueError
           | Some parsed \<Rightarrow>
               let ans = strip parsed;
                   refs = select_top_references documents 3;
                   decision = fst (infer_action (floats env) (encode_text env) ans (1 / 2));
                   act = action decision;
                   act = (if act = str ''none'' \<or> act = str ''no_action'' then str ''none'' else act)
               in (case MCPResponse ans refs act of
                     Inl e \<Rightarrow> Inl ValueError
                   | Inr validated \<Rightarrow> Inr validated))"

section \<open>retriever.py: reranking and retrieval\<close>

text \<open>
  \<open>sorted(xs, key=key, reverse=True)\<close>: descending by key, and stable: elements with
  equal keys keep their order.
\<close>

fun insort_desc :: "('a \<Rightarrow> 'k::linorder) \<Rightarrow> 'a \<Rightarrow> 'a list \<Rightarrow> 'a list" where
  "insort_desc key x [] = [x]"
| "insort_desc key x (y # ys) =
     (if key y \<le> key x then x # y # ys else y # insort_desc key x ys)"

definition sorted_reverse :: "('a \<Rightarrow> 'k::linorder) \<Rightarrow> 'a list \<Rightarrow> 'a list" where
  "sorted_reverse key xs = foldr (insort_desc key) xs []"

text \<open>\<open>_rerank_documents\<close>; the loop writes the score into the metadata of each kept document.\<close>

definition rerank_documents ::
  "collaborators \<Rightarrow> ustring \<Rightarrow> document list \<Rightarrow> nat \<Rightarrow> document list \<times> real list" where
  "rerank_documents env query docs top_k =
     (if docs = [] then ([], [])
      else
        let scores = map (\<lambda>d. predict env query (page_content d)) docs;
            ranked = sorted_reverse snd (zip docs scores);
            top_ranked = take top_k ranked
        in (map (\<lambda>(doc, score). doc\<lparr>md_relevance_score := Some score\<rparr>) top_ranked,
            map snd top_ranked))"

definition INITIAL_K :: nat where "INITIAL_K = 6"

definition FINAL_K :: nat where "FINAL_K = 4"

definition retrieve_documents ::
  "collaborators \<Rightarrow> ustring \<Rightarrow> nat \<Rightarrow> nat \<Rightarrow> error + (document list \<times> assessment)" where
  "retrieve_documents env query initial_k final_k =
     (let q = strip query in
      if q = [] then Inl ValueError
      else
        let initial_docs = search env q initial_k;
            ranked = rerank_documents env q initial_docs final_k;
            eval_metrics = evaluate_retrieval (floats env) (snd ranked) (fst ranked)
        in Inr (fst ranked, eval_metrics))"

section \<open>rag_pipeline.py\<close>

text \<open>The initial \<open>best_eval\<close>, the dict with the single key \<open>quality\<close>.\<close>

definition initial_best_eval :: assessment where
  "initial_best_eval =
     \<lparr>quality = str ''poor'', reason = None, avg_relevance_score = None,
      top_relevance_score = None, score_gap = None, num_results = None,
      categories_covered = None\<rparr>"

text \<open>
  The \<open>if\<close>/\<open>elif\<close> of the loop over the queries, and the condition under which the
  \<open>elif\<close> branch runs.
\<close>

definition update_best :: "assessment \<Rightarrow> assessment \<Rightarrow> assessment" where
  "update_best best_eval eval_metrics =
     (if quality eval_metrics = str ''good'' then eval_metrics
      else if quality eval_metrics = str ''weak'' \<and> quality best_eval \<noteq> str ''good''
      then eval_metrics
      else best_eval)"

definition weak_branch_taken :: "assessment \<Rightarrow> assessment \<Rightarrow> bool" where
  "weak_branch_taken best_eval eval_metrics \<longleftrightarrow>
     quality eval_metrics \<noteq> str ''good'' \<and> quality eval_metrics = str ''weak'' \<and>
     quality best_eval \<noteq> str ''good''"

fun queries_loop ::
  "collaborators \<Rightarrow> ustring list \<Rightarrow> document list \<Rightarrow> assessment \<Rightarrow>
     error + (document list \<times> assessment)" where
  "queries_loop env [] all_docs best_eval = Inr (all_docs, best_eval)"
| "queries_loop env (q # qs) all_docs best_eval =
     (case retrieve_documents env q INITIAL_K FINAL_K of
        Inl e \<Rightarrow> Inl e
      | Inr (docs, eval_metrics) \<Rightarrow>
          queries_loop env qs (all_docs @ docs) (update_best best_eval eval_metrics))"

text \<open>
  The dict \<open>dedup\<close>: an association list in the order in which the keys were first
  inserted; assigning to a key that is there replaces its value in place.
\<close>

fun dict_set :: "('k \<times> 'v) list \<Rightarrow> 'k \<Rightarrow> 'v \<Rightarrow> ('k \<times> 'v) list" where
  "dict_set [] k v = [(k, v)]"
| "dict_set ((k', v') # kvs) k v =
     (if k' = k then (k, v) # kvs else (k', v') # dict_set kvs k v)"

fun dedup_loop :: "document list \<Rightarrow> (ustring \<times> document) list \<Rightarrow> (ustring \<times> document) list" where
  "dedup_loop [] dedup = dedup"
| "dedup_loop (d # ds) dedup = dedup_loop ds (dict_set dedup (page_content d) d)"

text \<open>
  The sort key \<open>d.metadata.get("relevance_score", float("-inf"))\<close>: \<open>None\<close> is below every
  \<open>Some x\<close> in the order on options, as minus infinity is below every score.
\<close>

definition relevance_key :: "document \<Rightarrow> real option" where
  "relevance_key d = md_relevance_score d"

definition final_documents :: "document list \<Rightarrow> document list" where
  "final_documents all_docs =
     (let dedup = dedup_loop all_docs [];
          global_ranked = sorted_reverse relevance_key (map snd dedup)
      in take 4 global_ranked)"

text \<open>The override of the action after generation.\<close>

definition safety_override :: "assessment \<Rightarrow> response \<Rightarrow> response" where
  "safety_override best_eval result =
     (if quality best_eval = str ''poor'' then
        (if action_required result = str ''none''
         then result\<lparr>action_required := str ''follow_up_required''\<rparr>
         else result)
      else result)"

text \<open>The dict that \<open>resolve_ticket\<close> returns: the response and the three diagnostic keys.\<close>

record resolution = response +
  rewritten_queries :: "ustring list"
  reranked_docs :: "document list"
  retrieval_eval :: assessment

definition resolve_ticket ::
  "collaborators \<Rightarrow> ustring \<Rightarrow> (ustring \<Rightarrow> ustring option) \<Rightarrow> error + resolution" where
  "resolve_ticket env ticket_text call_text =
     (case rewrite_ticket (decimal_digit env) ticket_text call_text of
        Inl e \<Rightarrow> Inl e
      | Inr rewritten \<Rightarrow>
          let queries = (if rewritten = [] then [ticket_text] else rewritten)
          in (case queries_loop env queries [] initial_best_eval of
                Inl e \<Rightarrow> Inl e
              | Inr (all_docs, best_eval) \<Rightarrow>
                  let final_docs = final_documents all_docs
                  in (case generate_answer env ticket_text final_docs call_text of
                        Inl e \<Rightarrow> Inl e
                      | Inr generated \<Rightarrow>
                          let result = safety_override best_eval generated
                          in Inr \<lparr>answer = answer result,
                                  references = references result,
                                  action_required = action_required result,
                                  rewritten_queries = queries,
                                  reranked_docs = final_docs,
                                  retrieval_eval = best_eval\<rparr>)))"

section \<open>Exact arithmetic and mocked collaborators\<close>

text \<open>
  Arithmetic without rounding error, for the examples. Where an example reads an
  average, a gap, a similarity or a rounded value, its inputs are small dyadic numbers,
  on which the float operations compute exactly these values; the other examples read
  labels only, which depend on comparisons. \<open>round3\<close> rounds to three decimals, ties
  to the even neighbour.
\<close>

definition round_half_even :: "real \<Rightarrow> int" where
  "round_half_even x =
     (let f = \<lfloor>x\<rfloor>; d = x - of_int f
      in if d < 1 / 2 then f else if 1 / 2 < d then f + 1 else if even f then f else f + 1)"

definition round3 :: "real \<Rightarrow> real" where
  "round3 x = of_int (round_half_even (x * 1000)) / 1000"

definition dot :: "real list \<Rightarrow> real list \<Rightarrow> real" where
  "dot u v = sum_list (map2 (*) u v)"

definition exact_ops :: float_ops where
  "exact_ops =
     \<lparr>float_sum = sum_list, float_sub = (-), float_div = (/), float_round3 = round3,
      float_dot = dot\<rparr>"

text \<open>
  Collaborators for the examples, in the way the tests of the repository mock them. The
  generation collaborator answers every prompt with \<open>mock_raw\<close>, the two lines
  \<open>{"answer":\<close> and \<open>"Test"}\<close>, a JSON object whose answer is \<open>Test\<close>; the parser
  parses this text and nothing else. Read as a list of queries, the same text gives
  its two lines, \<open>mock_q1\<close> and \<open>mock_q2\<close>. The vector store returns a fixed document
  and one that repeats the query. The cross-encoder gives every pair the score 0.5; in
  the second environment it gives 4.0 to the document that repeats the query, and to
  the fixed document 4.5 for the first query and 5.0 for the second. The encoder maps
  short texts and long texts to two orthogonal unit vectors, so that the short answer is
  similar to no prototype.
\<close>

definition mock_raw :: ustring where
  "mock_raw = [123, 34] @ str ''answer'' @ [34, 58, 10, 34] @ str ''Test'' @ [34, 125]"

definition mock_q1 :: ustring where
  "mock_q1 = [123, 34] @ str ''answer'' @ [34, 58]"

definition mock_q2 :: ustring where
  "mock_q2 = [34] @ str ''Test'' @ [34, 125]"

definition mock_encode :: "ustring \<Rightarrow> real list" where
  "mock_encode t = (if length t \<le> 10 then [0, 1] else [1, 0])"

definition mock_env :: collaborators where
  "mock_env =
     \<lparr>floats = exact_ops,
      encode_text = mock_encode,
      json_answer = (\<lambda>raw. if raw = mock_raw then Some (str ''Test'') else None),
      search = (\<lambda>q k. [doc_plain (str ''doc''), doc_plain q]),
      predict = (\<lambda>q t. 1 / 2),
      decimal_digit = ascii_digit\<rparr>"

definition mock_env_good :: collaborators where
  "mock_env_good =
     mock_env\<lparr>predict := (\<lambda>q t. if t = str ''doc'' then (if q = mock_q2 then 5 else 9 / 2) else 4)\<rparr>"

text \<open>A document with a score, as the pipeline tests build it.\<close>

definition make_doc :: "ustring \<Rightarrow> real \<Rightarrow> document" where
  "make_doc text score = (doc_plain text)\<lparr>md_relevance_score := Some score\<rparr>"

text \<open>
  The words of the specification for the global ranking: \<open>a\<close> may stand before \<open>b\<close>
  when \<open>b\<close> has no score, or both have one and that of \<open>a\<close> is at least that of \<open>b\<close>;
  a document is the last occurrence of its content in a list.
\<close>

definition ranks_no_lower :: "document \<Rightarrow> document \<Rightarrow> bool" where
  "ranks_no_lower a b =
     (case md_relevance_score b of
        None \<Rightarrow> True
      | Some y \<Rightarrow> (case md_relevance_score a of None \<Rightarrow> False | Some x \<Rightarrow> y \<le> x))"

definition last_occurrence :: "document list \<Rightarrow> document \<Rightarrow> bool" where
  "last_occurrence docs d \<longleftrightarrow>
     d \<in> set docs \<and> d = last (filter (\<lambda>e. page_content e = page_content d) docs)"

section \<open>Reference formatting\<close>

text \<open>
  C1. The formatter is claimed to return \<open>category: section\<close>, then the section sign
  U+00A7 and the subsection when present, then \<open>file=source_file\<close>, joined by \<open>" | "\<close>.
  On the example metadata the code returns the string with U+0E22 U+0E07 where the
  section sign U+00A7 is expected, so the result differs from the expected string.
\<close>

theorem format_reference_password_reset:
  "format_reference doc_password_reset =
     str ''faqs: Password Reset | '' @ [3618, 3591] @ str '' Email Flow | file=faqs/reset.md'' \<and>
   format_reference doc_password_reset \<noteq>
     str ''faqs: Password Reset | '' @ [167] @ str '' Email Flow | file=faqs/reset.md''"
  by (simp add: format_reference_def doc_password_reset_def get_default_def str_def)

section \<open>Rounding\<close>

lemma round_half_even_near: "\<bar>of_int (round_half_even x) - x\<bar> \<le> 1 / 2"
  unfolding round_half_even_def Let_def by (auto; linarith)

lemma round_half_even_ge: "of_int n \<le> x \<Longrightarrow> n \<le> round_half_even x"
  unfolding round_half_even_def Let_def by (auto simp: le_floor_iff; linarith)

lemma round_half_even_le:
  assumes "x \<le> of_int n"
  shows "round_half_even x \<le> n"
proof (cases "x - of_int \<lfloor>x\<rfloor> < 1 / 2")
  case True
  have "\<lfloor>x\<rfloor> \<le> n" using assms by (simp add: floor_le_iff)
  with True show ?thesis by (simp add: round_half_even_def Let_def)
next
  case False
  then have "x \<noteq> of_int n" by auto
  with assms have "x < of_int n" by simp
  then have "\<lfloor>x\<rfloor> < n" by (simp add: floor_less_iff)
  then show ?thesis by (simp add: round_half_even_def Let_def)
qed

lemma round3_near: "\<bar>round3 x - x\<bar> \<le> 1 / 2000"
proof -
  have "\<bar>of_int (round_half_even (x * 1000)) - x * 1000\<bar> \<le> 1 / 2"
    by (rule round_half_even_near)
  then show ?thesis by (simp add: round3_def field_simps abs_le_iff)
qed

lemma round3_decimals: "round3 x * 1000 = of_int (round_half_even (x * 1000))"
  by (simp add: round3_def)

lemma round3_nonneg: "0 \<le> x \<Longrightarrow> 0 \<le> round3 x"
  using round_half_even_ge [of 0 "x * 1000"] by (simp add: round3_def)

lemma round3_le_1: "x \<le> 1 \<Longrightarrow> round3 x \<le> 1"
  using round_half_even_le [of "x * 1000" 1000] by (simp add: round3_def)





section \<open>Quality labels\<close>

text \<open>
  C2 as stated: the label of every assessment is one of \<open>good\<close>, \<open>partially_good\<close>,
  \<open>poor\<close>. It fails on the single score 3.4, where the label is \<open>partially good\<close>,
  written with a space.
\<close>

theorem quality_label_counterexample:
  "quality (evaluate_retrieval exact_ops [34 / 10] [doc_plain (str ''x'')])
     \<notin> {str ''good'', str ''partially_good'', str ''poor''}"
  by (simp add: evaluate_retrieval_def Let_def str_def)

text \<open>
  C2 amended: for every score list and document list the label of the assessment is one
  of the three strings \<open>good\<close>, \<open>partially good\<close>, \<open>poor\<close>.
\<close>

theorem quality_label_closed:
  "quality (evaluate_retrieval fo scores docs)
     \<in> {str ''good'', str ''partially good'', str ''poor''}"
  by (simp add: evaluate_retrieval_def Let_def)

text \<open>
  C5 as stated: a non-empty score list is labelled \<open>partially_good\<close> exactly when it is
  not good and its top score exceeds 3. It fails on the scores 3.5, 3.25, whose
  difference 0.25 the float subtraction computes exactly.
\<close>

theorem evaluate_retrieval_counterexample:
  "\<not> (quality (evaluate_retrieval exact_ops [7 / 2, 13 / 4] [doc_plain (str ''x''), doc_plain (str ''y'')])
        = str ''partially_good''
      \<longleftrightarrow> \<not> ((7 / 2 :: real) > 4 \<and> (7 / 2 - 13 / 4 :: real) > 6 / 10) \<and> (7 / 2 :: real) > 3)"
  by (simp add: evaluate_retrieval_def exact_ops_def Let_def str_def)

text \<open>
  C5 amended: an empty score list gives quality \<open>poor\<close> with reason
  \<open>no_documents_retrieved\<close> and no other key. A non-empty score list gives, with
  top the first score and gap the float difference of the first score and the second
  (the first score when there is one score only): \<open>good\<close> iff top > 4.0 and
  gap > 0.6, otherwise \<open>partially good\<close> iff top > 3.0, otherwise \<open>poor\<close>; the
  output holds \<open>round(x, 3)\<close> of the average (the float sum divided by the number of
  scores), of top and of gap, and there is no reason key. This holds for every float
  arithmetic.
\<close>

theorem evaluate_retrieval_classifies:
  "evaluate_retrieval fo [] docs =
     \<lparr>quality = str ''poor'', reason = Some (str ''no_documents_retrieved''),
      avg_relevance_score = None, top_relevance_score = None, score_gap = None,
      num_results = None, categories_covered = None\<rparr> \<and>
   (scores \<noteq> [] \<longrightarrow>
     (let top = hd scores;
          gap = (if 2 \<le> length scores then float_sub fo (hd scores) (hd (tl scores))
                 else hd scores);
          r = evaluate_retrieval fo scores docs
      in (quality r = str ''good'' \<longleftrightarrow> top > 4 \<and> gap > 6 / 10) \<and>
         (quality r = str ''partially good'' \<longleftrightarrow> \<not> (top > 4 \<and> gap > 6 / 10) \<and> top > 3) \<and>
         (quality r = str ''poor'' \<longleftrightarrow> \<not> (top > 4 \<and> gap > 6 / 10) \<and> \<not> top > 3) \<and>
         avg_relevance_score r =
           Some (float_round3 fo (float_div fo (float_sum fo scores) (real (length scores)))) \<and>
         top_relevance_score r = Some (float_round3 fo top) \<and>
         score_gap r = Some (float_round3 fo gap) \<and>
         reason r = None))"
proof -
  have labels: "str ''good'' \<noteq> str ''partially good''" "str ''good'' \<noteq> str ''poor''"
    "str ''partially good'' \<noteq> str ''poor''"
    by (simp_all add: str_def)
  show ?thesis
  proof (cases scores)
    case Nil
    then show ?thesis by (simp add: evaluate_retrieval_def)
  next
    case (Cons a rest)
    show ?thesis
    proof (cases rest)
      case Nil
      with Cons show ?thesis
        using labels labels [symmetric] by (simp add: evaluate_retrieval_def Let_def)
    next
      case (Cons b rest')
      with \<open>scores = a # rest\<close> show ?thesis
        using labels labels [symmetric] by (simp add: evaluate_retrieval_def Let_def)
    qed
  qed
qed

theorem evaluate_retrieval_classifies_witness:
  "[9 / 2, 7 / 2] \<noteq> ([] :: real list) \<and>
   quality (evaluate_retrieval exact_ops [9 / 2, 7 / 2] []) = str ''good'' \<and>
   score_gap (evaluate_retrieval exact_ops [9 / 2, 7 / 2] []) = Some 1 \<and>
   avg_relevance_score (evaluate_retrieval exact_ops [9 / 2, 7 / 2] []) = Some 4"
  using evaluate_retrieval_classifies [of exact_ops "[]" "[9 / 2, 7 / 2]"]
  by (simp add: Let_def exact_ops_def round3_def round_half_even_def)

section \<open>Trimming and numbering\<close>

lemma rstrip_split: "\<exists>t. s = rstrip s @ t \<and> list_all isspace t"
proof -
  have "s = rev (takeWhile isspace (rev s) @ dropWhile isspace (rev s))"
    by (simp only: takeWhile_dropWhile_id rev_rev_ident)
  then have "s = rstrip s @ rev (takeWhile isspace (rev s))"
    by (simp only: rev_append rstrip_def)
  moreover have "list_all isspace (rev (takeWhile isspace (rev s)))"
    by (simp add: list_all_iff) (meson set_takeWhileD)
  ultimately show ?thesis by blast
qed

lemma rstrip_id: "s \<noteq> [] \<Longrightarrow> \<not> isspace (last s) \<Longrightarrow> rstrip s = s"
proof -
  assume a: "s \<noteq> []" "\<not> isspace (last s)"
  then have "rev s \<noteq> []" "\<not> isspace (hd (rev s))" by (simp_all add: hd_rev)
  then have "dropWhile isspace (rev s) = rev s" by (cases "rev s") simp_all
  then show ?thesis by (simp add: rstrip_def)
qed

lemma rstrip_Nil: "rstrip [] = []" by (simp add: rstrip_def)

lemma last_rstrip: "rstrip s \<noteq> [] \<Longrightarrow> \<not> isspace (last (rstrip s))"
proof -
  assume "rstrip s \<noteq> []"
  then have ne: "dropWhile isspace (rev s) \<noteq> []" by (simp add: rstrip_def)
  then have "\<not> isspace (hd (dropWhile isspace (rev s)))" by (rule hd_dropWhile)
  with ne show ?thesis by (simp add: rstrip_def last_rev)
qed

lemma hd_rstrip: 
  assumes "s \<noteq> []" "\<not> isspace (hd s)"
  shows "rstrip s \<noteq> [] \<and> hd (rstrip s) = hd s"
proof -
  obtain t where t: "s = rstrip s @ t" "list_all isspace t" using rstrip_split by blast
  have "rstrip s \<noteq> []"
  proof
    assume "rstrip s = []"
    with t have "s = t" by simp
    with assms t(2) show False by (cases t) auto
  qed
  moreover from this t(1) have "hd s = hd (rstrip s)" by (metis hd_append2)
  ultimately show ?thesis by simp
qed

lemma trimmed_strip: "trimmed (strip s)"
proof (cases "strip s = []")
  case True
  then show ?thesis by (simp add: trimmed_def)
next
  case False
  then have ne: "lstrip s \<noteq> []" by (auto simp: strip_def rstrip_Nil)
  then have "\<not> isspace (hd (lstrip s))" unfolding lstrip_def by (rule hd_dropWhile)
  with ne have "hd (strip s) = hd (lstrip s)" by (simp add: strip_def hd_rstrip)
  with \<open>\<not> isspace (hd (lstrip s))\<close> have "\<not> isspace (hd (strip s))" by simp
  moreover from False have "\<not> isspace (last (strip s))" by (simp add: strip_def last_rstrip)
  ultimately show ?thesis by (simp add: trimmed_def)
qed

lemma strip_trimmed: "trimmed s \<Longrightarrow> strip s = s"
proof (cases s)
  case Nil
  then show ?thesis by (simp add: strip_def lstrip_def rstrip_def)
next
  case (Cons a as)
  assume "trimmed s"
  with Cons have h: "\<not> isspace a" "\<not> isspace (last s)" by (simp_all add: trimmed_def)
  then have "lstrip s = s" using Cons by (simp add: lstrip_def)
  moreover have "rstrip s = s" using h Cons by (intro rstrip_id) simp_all
  ultimately show ?thesis by (simp add: strip_def)
qed

lemma match_numbering_split:
  "match_numbering isd s = Some r \<Longrightarrow>
     \<exists>ds p. s = ds @ [p] @ r \<and> ds \<noteq> [] \<and> list_all isd ds \<and> (p = 46 \<or> p = 41)"
proof (induction s arbitrary: r)
  case Nil
  then show ?case by simp
next
  case (Cons c cs)
  from Cons.prems have c: "isd c" by (simp split: if_splits)
  show ?case
  proof (cases "match_numbering isd cs")
    case (Some r')
    with Cons.prems c have "r' = r" by simp
    with Some Cons.IH obtain ds p where
      "cs = ds @ [p] @ r" "ds \<noteq> []" "list_all isd ds" "p = 46 \<or> p = 41" by blast
    with c have "c # cs = (c # ds) @ [p] @ r \<and> c # ds \<noteq> [] \<and> list_all isd (c # ds) \<and> (p = 46 \<or> p = 41)"
      by simp
    then show ?thesis by blast
  next
    case None
    with Cons.prems c obtain d where "cs = d # r" "d = 46 \<or> d = 41"
      by (auto split: list.splits if_splits)
    with c have "c # cs = [c] @ [d] @ r \<and> [c] \<noteq> [] \<and> list_all isd [c] \<and> (d = 46 \<or> d = 41)"
      by simp
    then show ?thesis by blast
  qed
qed

lemma sub_numbering_split:
  "\<exists>n. s = n @ sub_numbering isd s \<and> (n = [] \<or> is_numbering isd n)"
proof (cases "match_numbering isd s")
  case None
  then show ?thesis by (simp add: sub_numbering_def)
next
  case (Some r)
  then obtain ds p where s: "s = ds @ [p] @ r" "ds \<noteq> []" "list_all isd ds" "p = 46 \<or> p = 41"
    using match_numbering_split by blast
  let ?ws = "takeWhile isspace r"
  have ws: "list_all isspace ?ws" by (simp add: list_all_iff) (meson set_takeWhileD)
  have "r = ?ws @ dropWhile isspace r" by simp
  with s(1) have "s = (ds @ [p] @ ?ws) @ dropWhile isspace r" by simp
  then have "s = (ds @ [p] @ ?ws) @ sub_numbering isd s"
    using Some by (simp add: sub_numbering_def)
  moreover have "is_numbering isd (ds @ [p] @ ?ws)"
    unfolding is_numbering_def using s ws by blast
  ultimately show ?thesis by blast
qed

lemma sub_numbering_hd:
  "trimmed s \<Longrightarrow> sub_numbering isd s \<noteq> [] \<Longrightarrow> \<not> isspace (hd (sub_numbering isd s))"
  by (cases "match_numbering isd s") (auto simp: sub_numbering_def trimmed_def hd_dropWhile)

lemma sub_numbering_trimmed:
  assumes "trimmed s"
  shows "trimmed (sub_numbering isd s)"
proof (cases "sub_numbering isd s = []")
  case True
  then show ?thesis by (simp add: trimmed_def)
next
  case False
  obtain n where n: "s = n @ sub_numbering isd s" using sub_numbering_split by blast
  with False have "last s = last (sub_numbering isd s)" by (metis last_appendR)
  moreover from n False have "s \<noteq> []" by auto
  ultimately have "\<not> isspace (last (sub_numbering isd s))" using assms by (simp add: trimmed_def)
  with False sub_numbering_hd [OF assms] show ?thesis by (simp add: trimmed_def)
qed


lemma strip_Nil: "strip [] = []"
  by (simp add: strip_def lstrip_def rstrip_def)

lemma clean_split:
  assumes s: "strip line \<noteq> []"
    and q: "q = sub_numbering isd (strip (lstrip_chars [45, 8226] (strip line)))" "q \<noteq> []"
  shows "\<exists>b w n. strip line = b @ w @ n @ q \<and> set b \<subseteq> {45, 8226} \<and> list_all isspace w \<and>
           (n = [] \<or> is_numbering isd n)"
proof -
  let ?s = "strip line"
  let ?b = "takeWhile (\<lambda>c. c \<in> set [45, 8226]) ?s"
  let ?s1 = "lstrip_chars [45, 8226] ?s"
  let ?w = "takeWhile isspace ?s1"
  have b: "?s = ?b @ ?s1" by (simp add: lstrip_chars_def)
  have setb: "set ?b \<subseteq> {45, 8226}" by (auto dest: set_takeWhileD)
  have w: "?s1 = ?w @ lstrip ?s1" by (simp add: lstrip_def)
  have allw: "list_all isspace ?w" by (simp add: list_all_iff) (meson set_takeWhileD)
  obtain n where n: "strip ?s1 = n @ q" "n = [] \<or> is_numbering isd n"
    using sub_numbering_split [of "strip ?s1" isd] q(1) by blast
  with q(2) have "strip ?s1 \<noteq> []" by simp
  then have ne: "lstrip ?s1 \<noteq> []" by (auto simp: strip_def rstrip_Nil)
  have "?s = (?b @ ?w) @ lstrip ?s1" using b w by simp
  with ne have "last ?s = last (lstrip ?s1)" by (metis last_appendR)
  moreover have "\<not> isspace (last ?s)" using trimmed_strip [of line] s by (simp add: trimmed_def)
  ultimately have "rstrip (lstrip ?s1) = lstrip ?s1" using ne by (simp add: rstrip_id)
  then have "lstrip ?s1 = n @ q" using n(1) by (simp add: strip_def)
  with b w have "?s = ?b @ ?w @ n @ q" by simp
  with setb allw n(2) show ?thesis by blast
qed

lemma lines_loop_set:
  "set (lines_loop isd ls acc) \<subseteq>
     set acc \<union> {q. \<exists>line\<in>set ls. strip line \<noteq> [] \<and> q \<noteq> [] \<and>
                    q = sub_numbering isd (strip (lstrip_chars [45, 8226] (strip line)))}"
proof (induction ls arbitrary: acc)
  case Nil
  then show ?case by simp
next
  case (Cons line rest)
  show ?case using Cons.IH [of acc]
      Cons.IH [of "acc @ [sub_numbering isd (strip (lstrip_chars [45, 8226] (strip line)))]"]
    by (auto simp: Let_def)
qed

lemma set_dedup_first_seen: "set (dedup_first_seen xs) = set xs"
  by (induction xs rule: dedup_first_seen.induct) auto

lemma distinct_dedup_first_seen: "distinct (dedup_first_seen xs)"
  by (induction xs rule: dedup_first_seen.induct) (auto simp: set_dedup_first_seen)

lemma seen_loop_dedup:
  "seen_loop qs seen out = out @ dedup_first_seen (filter (\<lambda>q. q \<notin> seen) qs)"
proof (induction qs arbitrary: seen out)
  case Nil
  then show ?case by simp
next
  case (Cons q qs)
  have "removeAll q (filter (\<lambda>x. x \<notin> seen) qs) = filter (\<lambda>x. x \<notin> insert q seen) qs"
    by (induction qs) auto
  with Cons show ?case by simp
qed

lemma match_numbering_complete:
  "ds \<noteq> [] \<Longrightarrow> list_all isd ds \<Longrightarrow> p = 46 \<or> p = 41 \<Longrightarrow>
     match_numbering isd (ds @ [p] @ rest) \<noteq> None"
proof (induction ds)
  case Nil
  then show ?case by simp
next
  case (Cons c ds)
  show ?case
  proof (cases "ds = []")
    case True
    with Cons.prems show ?thesis by (auto split: option.splits)
  next
    case False
    with Cons have "match_numbering isd (ds @ [p] @ rest) \<noteq> None" by simp
    with Cons.prems show ?thesis by (auto split: option.splits)
  qed
qed

lemma match_numbering_None:
  assumes "match_numbering isd s = None"
  shows "\<not> has_numbering isd s"
proof
  assume "has_numbering isd s"
  then obtain ds p rest where "s = ds @ [p] @ rest" "ds \<noteq> []" "list_all isd ds" "p = 46 \<or> p = 41"
    unfolding has_numbering_def by blast
  then have "match_numbering isd s \<noteq> None" using match_numbering_complete by blast
  with assms show False by simp
qed

lemma match_numbering_Some: "match_numbering isd s = Some r \<Longrightarrow> has_numbering isd s"
  by (drule match_numbering_split) (auto simp: has_numbering_def)

lemma sub_numbering_cleaned:
  "\<exists>n. s = n @ sub_numbering isd s \<and>
     (if has_numbering isd s
      then is_numbering isd n \<and> (sub_numbering isd s = [] \<or> \<not> isspace (hd (sub_numbering isd s)))
      else n = [])"
proof (cases "match_numbering isd s")
  case None
  then have "\<not> has_numbering isd s" by (rule match_numbering_None)
  with None show ?thesis by (simp add: sub_numbering_def)
next
  case (Some r)
  then have h: "has_numbering isd s" by (rule match_numbering_Some)
  from Some obtain ds p where s: "s = ds @ [p] @ r" "ds \<noteq> []" "list_all isd ds" "p = 46 \<or> p = 41"
    using match_numbering_split by blast
  let ?ws = "takeWhile isspace r"
  let ?q = "dropWhile isspace r"
  have q: "sub_numbering isd s = ?q" using Some by (simp add: sub_numbering_def)
  have ws: "list_all isspace ?ws" by (simp add: list_all_iff) (meson set_takeWhileD)
  have "r = ?ws @ ?q" by simp
  with s(1) have "s = (ds @ [p] @ ?ws) @ ?q" by simp
  moreover have "is_numbering isd (ds @ [p] @ ?ws)"
    unfolding is_numbering_def using s ws by blast
  moreover have "?q = [] \<or> \<not> isspace (hd ?q)" using hd_dropWhile [of isspace r] by blast
  ultimately show ?thesis using h q by (metis (full_types))
qed

lemma strip_of_suffix:
  assumes "trimmed s" "s = p @ r"
  shows "strip r = lstrip r"
proof (cases "lstrip r = []")
  case True
  then show ?thesis by (simp add: strip_def rstrip_Nil)
next
  case False
  have "r = takeWhile isspace r @ lstrip r" by (simp add: lstrip_def)
  with assms(2) have "s = (p @ takeWhile isspace r) @ lstrip r" by simp
  with False have "last s = last (lstrip r)" by (metis last_appendR)
  moreover from False assms(2) have "s \<noteq> []" by (auto simp: lstrip_def)
  ultimately have "\<not> isspace (last (lstrip r))" using assms(1) by (simp add: trimmed_def)
  with False show ?thesis by (simp add: strip_def rstrip_id)
qed

lemma clean_line_cleaned:
  "cleaned isd line (sub_numbering isd (strip (lstrip_chars [45, 8226] (strip line))))"
proof -
  let ?s = "strip line"
  let ?b = "takeWhile (\<lambda>c. c \<in> set [45, 8226]) ?s"
  let ?s1 = "lstrip_chars [45, 8226] ?s"
  let ?w = "takeWhile isspace ?s1"
  let ?s2 = "lstrip ?s1"
  let ?q = "sub_numbering isd (strip ?s1)"
  have b: "?s = ?b @ ?s1" by (simp add: lstrip_chars_def)
  have allb: "list_all is_bullet ?b"
    by (auto simp: list_all_iff is_bullet_def dest: set_takeWhileD)
  have hd1: "?s1 = [] \<or> \<not> is_bullet (hd ?s1)"
    using hd_dropWhile [of "\<lambda>c. c \<in> set [45, 8226]" ?s]
    by (auto simp: lstrip_chars_def is_bullet_def)
  have w: "?s1 = ?w @ ?s2" by (simp add: lstrip_def)
  have allw: "list_all isspace ?w" by (simp add: list_all_iff) (meson set_takeWhileD)
  have hd2: "?s2 = [] \<or> \<not> isspace (hd ?s2)"
    using hd_dropWhile [of isspace ?s1] by (auto simp: lstrip_def)
  have st: "strip ?s1 = ?s2" using trimmed_strip [of line] b by (rule strip_of_suffix)
  obtain n where n: "?s2 = n @ ?q"
    "if has_numbering isd ?s2 then is_numbering isd n \<and> (?q = [] \<or> \<not> isspace (hd ?q)) else n = []"
    using sub_numbering_cleaned [of ?s2 isd] by (auto simp: st)
  have dec: "?s = ?b @ ?w @ n @ ?q" using b w n(1) by simp
  have e1: "?w @ n @ ?q = ?s1" using w n(1) by simp
  have e2: "n @ ?q = ?s2" using n(1) by simp
  show ?thesis
    unfolding cleaned_def
  proof (intro exI conjI)
    show "?s = ?b @ ?w @ n @ ?q" by (rule dec)
    show "list_all is_bullet ?b" by (rule allb)
    show "?w @ n @ ?q = [] \<or> \<not> is_bullet (hd (?w @ n @ ?q))" using hd1 by (simp only: e1)
    show "list_all isspace ?w" by (rule allw)
    show "n @ ?q = [] \<or> \<not> isspace (hd (n @ ?q))" using hd2 by (simp only: e2)
    show "if has_numbering isd (n @ ?q)
      then is_numbering isd n \<and> (?q = [] \<or> \<not> isspace (hd ?q)) else n = []"
      using n(2) by (simp only: e2)
  qed
qed

lemma clean_blank:
  "strip line = [] \<Longrightarrow> sub_numbering isd (strip (lstrip_chars [45, 8226] (strip line))) = []"
  by (simp add: lstrip_chars_def strip_Nil sub_numbering_def)

lemma lines_loop_filter:
  "lines_loop isd ls acc =
     acc @ filter (\<lambda>q. q \<noteq> [])
             (map (\<lambda>line. sub_numbering isd (strip (lstrip_chars [45, 8226] (strip line)))) ls)"
proof (induction ls arbitrary: acc)
  case Nil
  then show ?case by simp
next
  case (Cons line rest)
  show ?case
  proof (cases "strip line = []")
    case True
    then show ?thesis using clean_blank [OF True, of isd] by (simp add: Cons.IH)
  next
    case False
    then show ?thesis by (simp add: Cons.IH Let_def)
  qed
qed

lemma lines_loop_cleaned:
  "\<exists>qs. list_all2 (cleaned isd) ls qs \<and> lines_loop isd ls [] = filter (\<lambda>q. q \<noteq> []) qs"
proof -
  let ?qs = "map (\<lambda>line. sub_numbering isd (strip (lstrip_chars [45, 8226] (strip line)))) ls"
  have "list_all2 (cleaned isd) ls ?qs"
    by (simp add: list_all2_conv_all_nth clean_line_cleaned)
  moreover have "lines_loop isd ls [] = filter (\<lambda>q. q \<noteq> []) ?qs"
    by (simp add: lines_loop_filter)
  ultimately show ?thesis by blast
qed

section \<open>Query rewriting\<close>

text \<open>
  C9. For every non-blank ticket and every response of the generation collaborator
  (a string or \<open>None\<close>), \<open>rewrite_ticket\<close> returns a list without duplicates and
  of length at most 5. Every line of the response is cleaned: its trimmed text loses all
  its leading bullet markers, all the whitespace after them, and, when what follows begins
  with digits and a \<open>.\<close> or \<open>)\<close>, that numeric prefix with all the whitespace after it.
  The result is the first five of the non-empty cleaned lines, deduplicated by equality in
  first-seen order. Every returned string is non-empty and comes from a line of the
  response.
\<close>

theorem rewrite_ticket_queries:
  assumes "strip ticket_text \<noteq> []"
  shows "\<exists>out. rewrite_ticket isdigit ticket_text llm_call = Inr out \<and>
           distinct out \<and> length out \<le> 5 \<and>
           out = take 5 (dedup_first_seen (lines_loop isdigit
                   (splitlines (get_default (llm_call (QUERY_REWRITE_PROMPT (strip ticket_text))) [])) [])) \<and>
           (\<forall>q\<in>set out. q \<noteq> [] \<and>
              (\<exists>line\<in>set (splitlines (get_default (llm_call (QUERY_REWRITE_PROMPT (strip ticket_text))) [])).
                 \<exists>b w n. strip line = b @ w @ n @ q \<and> set b \<subseteq> {45, 8226} \<and> list_all isspace w \<and>
                   (n = [] \<or> is_numbering isdigit n))) \<and>
           (\<exists>qs. list_all2 (cleaned isdigit)
                   (splitlines (get_default (llm_call (QUERY_REWRITE_PROMPT (strip ticket_text))) [])) qs \<and>
                 out = take 5 (dedup_first_seen (filter (\<lambda>q. q \<noteq> []) qs)))"
proof -
  let ?ls = "splitlines (get_default (llm_call (QUERY_REWRITE_PROMPT (strip ticket_text))) [])"
  let ?lines = "lines_loop isdigit ?ls []"
  let ?out = "take 5 (dedup_first_seen ?lines)"
  from assms have "ticket_text \<noteq> []" by (auto simp: strip_Nil)
  with assms have r: "rewrite_ticket isdigit ticket_text llm_call = Inr ?out"
    by (simp add: rewrite_ticket_def Let_def seen_loop_dedup)
  obtain qs where qs: "list_all2 (cleaned isdigit) ?ls qs" "?lines = filter (\<lambda>q. q \<noteq> []) qs"
    using lines_loop_cleaned [of isdigit ?ls] by blast
  have c: "\<exists>qs. list_all2 (cleaned isdigit) ?ls qs \<and>
      ?out = take 5 (dedup_first_seen (filter (\<lambda>q. q \<noteq> []) qs))"
  proof (intro exI conjI)
    show "list_all2 (cleaned isdigit) ?ls qs" by (rule qs(1))
    show "?out = take 5 (dedup_first_seen (filter (\<lambda>q. q \<noteq> []) qs))" by (simp only: qs(2))
  qed
  have d: "distinct ?out" by (simp add: distinct_dedup_first_seen)
  have "set ?out \<subseteq> set ?lines"
    using set_take_subset [of 5 "dedup_first_seen ?lines"] by (simp add: set_dedup_first_seen)
  then have sub: "set ?out \<subseteq> {q. \<exists>line\<in>set ?ls. strip line \<noteq> [] \<and> q \<noteq> [] \<and>
                    q = sub_numbering isdigit (strip (lstrip_chars [45, 8226] (strip line)))}"
    using lines_loop_set [of isdigit ?ls "[]"] by auto
  have "\<forall>q\<in>set ?out. q \<noteq> [] \<and>
          (\<exists>line\<in>set ?ls. \<exists>b w n. strip line = b @ w @ n @ q \<and> set b \<subseteq> {45, 8226} \<and>
             list_all isspace w \<and> (n = [] \<or> is_numbering isdigit n))"
  proof
    fix q assume "q \<in> set ?out"
    with sub obtain line where l: "line \<in> set ?ls" "strip line \<noteq> []" "q \<noteq> []"
      "q = sub_numbering isdigit (strip (lstrip_chars [45, 8226] (strip line)))" by blast
    from clean_split [OF l(2) l(4) l(3)] l(1) l(3)
    show "q \<noteq> [] \<and> (\<exists>line\<in>set ?ls. \<exists>b w n. strip line = b @ w @ n @ q \<and> set b \<subseteq> {45, 8226} \<and>
             list_all isspace w \<and> (n = [] \<or> is_numbering isdigit n))" by blast
  qed
  with r d c show ?thesis by simp
qed

theorem rewrite_ticket_queries_witness:
  "strip (str ''Help me'') \<noteq> [] \<and>
   (\<exists>out. rewrite_ticket ascii_digit (str ''Help me'')
            (\<lambda>_. Some (str ''- dns\<newline>1. whois\<newline>\<newline>2) dns\<newline> 12. \<newline>1. - x'')) = Inr out \<and>
          out = [str ''dns'', str ''whois'', str ''- x''] \<and> distinct out \<and> length out \<le> 5)"
proof -
  have h: "strip (str ''Help me'') \<noteq> []"
    by (simp add: strip_def lstrip_def rstrip_def str_def isspace_def)
  have e: "rewrite_ticket ascii_digit (str ''Help me'')
      (\<lambda>_. Some (str ''- dns\<newline>1. whois\<newline>\<newline>2) dns\<newline> 12. \<newline>1. - x''))
      = Inr [str ''dns'', str ''whois'', str ''- x'']"
    by (simp add: rewrite_ticket_def Let_def str_def strip_def lstrip_def rstrip_def isspace_def
        splitlines_def islinebreak_def get_default_def lstrip_chars_def sub_numbering_def
        ascii_digit_def)
  from rewrite_ticket_queries [OF h, of ascii_digit
      "\<lambda>_. Some (str ''- dns\<newline>1. whois\<newline>\<newline>2) dns\<newline> 12. \<newline>1. - x'')"]
  obtain out where "rewrite_ticket ascii_digit (str ''Help me'')
      (\<lambda>_. Some (str ''- dns\<newline>1. whois\<newline>\<newline>2) dns\<newline> 12. \<newline>1. - x'')) = Inr out"
    "distinct out" "length out \<le> 5" by blast
  with e h show ?thesis by auto
qed

text \<open>
  C10. For every non-blank ticket and every response of the collaborator, a \<open>None\<close>
  response included, every string of the list returned by \<open>rewrite_ticket\<close> is non-empty
  and has no whitespace at its start or at its end, so that stripping it changes nothing;
  a \<open>None\<close> response gives the empty list.
\<close>

theorem rewrite_ticket_trimmed:
  assumes "strip ticket_text \<noteq> []"
  shows "\<exists>out. rewrite_ticket isdigit ticket_text llm_call = Inr out \<and>
           (\<forall>q\<in>set out. q \<noteq> [] \<and> \<not> isspace (hd q) \<and> \<not> isspace (last q) \<and> strip q = q) \<and>
           (llm_call (QUERY_REWRITE_PROMPT (strip ticket_text)) = None \<longrightarrow> out = [])"
proof -
  let ?ls = "splitlines (get_default (llm_call (QUERY_REWRITE_PROMPT (strip ticket_text))) [])"
  let ?lines = "lines_loop isdigit ?ls []"
  let ?out = "take 5 (dedup_first_seen ?lines)"
  from assms have "ticket_text \<noteq> []" by (auto simp: strip_Nil)
  with assms have r: "rewrite_ticket isdigit ticket_text llm_call = Inr ?out"
    by (simp add: rewrite_ticket_def Let_def seen_loop_dedup)
  have "set ?out \<subseteq> set ?lines"
    using set_take_subset [of 5 "dedup_first_seen ?lines"] by (simp add: set_dedup_first_seen)
  then have sub: "set ?out \<subseteq> {q. \<exists>line\<in>set ?ls. strip line \<noteq> [] \<and> q \<noteq> [] \<and>
                    q = sub_numbering isdigit (strip (lstrip_chars [45, 8226] (strip line)))}"
    using lines_loop_set [of isdigit ?ls "[]"] by auto
  have all: "\<forall>q\<in>set ?out. q \<noteq> [] \<and> \<not> isspace (hd q) \<and> \<not> isspace (last q) \<and> strip q = q"
  proof
    fix q assume "q \<in> set ?out"
    with sub obtain line where l: "q \<noteq> []"
      "q = sub_numbering isdigit (strip (lstrip_chars [45, 8226] (strip line)))" by blast
    have "trimmed q" unfolding l(2) by (intro sub_numbering_trimmed trimmed_strip)
    with l(1) show "q \<noteq> [] \<and> \<not> isspace (hd q) \<and> \<not> isspace (last q) \<and> strip q = q"
      by (simp add: strip_trimmed) (simp add: trimmed_def)
  qed
  have none: "?out = []" if n: "llm_call (QUERY_REWRITE_PROMPT (strip ticket_text)) = None"
  proof -
    have "get_default (llm_call (QUERY_REWRITE_PROMPT (strip ticket_text))) [] = []"
      by (simp only: n get_default_def option.case)
    moreover have "splitlines [] = []" by (simp add: splitlines_def)
    ultimately have "?ls = []" by (simp only:)
    then show ?thesis by (simp only: lines_loop.simps dedup_first_seen.simps take_Nil)
  qed
  show ?thesis
  proof (intro exI conjI impI)
    show "rewrite_ticket isdigit ticket_text llm_call = Inr ?out" by (rule r)
    show "\<forall>q\<in>set ?out. q \<noteq> [] \<and> \<not> isspace (hd q) \<and> \<not> isspace (last q) \<and> strip q = q"
      by (rule all)
    show "?out = []" if "llm_call (QUERY_REWRITE_PROMPT (strip ticket_text)) = None"
      using that by (rule none)
  qed
qed

theorem rewrite_ticket_trimmed_witness:
  "strip (str ''  Renewal failed '') \<noteq> [] \<and>
   (\<exists>out. rewrite_ticket ascii_digit (str ''  Renewal failed '')
            (\<lambda>_. Some ([32, 8226, 32] @ str ''renew domain  \<newline>3)   '')) = Inr out \<and>
          out = [str ''renew domain''] \<and>
          (\<forall>q\<in>set out. q \<noteq> [] \<and> \<not> isspace (hd q) \<and> \<not> isspace (last q)))"
proof -
  have h: "strip (str ''  Renewal failed '') \<noteq> []"
    by (simp add: strip_def lstrip_def rstrip_def str_def isspace_def)
  have e: "rewrite_ticket ascii_digit (str ''  Renewal failed '')
      (\<lambda>_. Some ([32, 8226, 32] @ str ''renew domain  \<newline>3)   '')) = Inr [str ''renew domain'']"
    by (simp add: rewrite_ticket_def Let_def str_def strip_def lstrip_def rstrip_def isspace_def
        splitlines_def islinebreak_def get_default_def lstrip_chars_def sub_numbering_def
        ascii_digit_def)
  from rewrite_ticket_trimmed [OF h, of ascii_digit
      "\<lambda>_. Some ([32, 8226, 32] @ str ''renew domain  \<newline>3)   '')"]
  obtain out where o: "rewrite_ticket ascii_digit (str ''  Renewal failed '')
      (\<lambda>_. Some ([32, 8226, 32] @ str ''renew domain  \<newline>3)   '')) = Inr out"
    "\<forall>q\<in>set out. q \<noteq> [] \<and> \<not> isspace (hd q) \<and> \<not> isspace (last q) \<and> strip q = q" by blast
  from o(1) e have "out = [str ''renew domain'']" by simp
  with o e h show ?thesis by blast
qed

section \<open>Response validation\<close>

lemma no_action_not_external: "str ''no_action'' \<notin> set ActionRequired"
  by (simp add: ActionRequired_def str_def)

lemma none_external: "str ''none'' \<in> set ActionRequired"
  by (simp add: ActionRequired_def)

lemma nonblank_filter: "filter (\<lambda>r. r \<noteq> [] \<and> strip r \<noteq> []) refs = filter (\<lambda>r. strip r \<noteq> []) refs"
  by (rule filter_cong) (auto simp: strip_Nil)

lemma MCPResponse_cases:
  "MCPResponse ans refs act =
     (if strip ans = [] \<or> 5000 < length ans \<or> 3 < length (filter (\<lambda>r. strip r \<noteq> []) refs) \<or>
         act \<notin> set ActionRequired
      then Inl ValidationError
      else Inr \<lparr>answer = strip ans, references = map strip (filter (\<lambda>r. strip r \<noteq> []) refs),
                action_required = act\<rparr>)"
proof -
  have "length ans < 1 \<Longrightarrow> strip ans = []" by (cases ans) (simp_all add: strip_Nil)
  then show ?thesis
    by (auto simp: MCPResponse_def answer_must_not_be_blank_def references_nonempty_strings_def
        nonblank_filter Let_def)
qed

lemma generate_answer_Inr:
  assumes "generate_answer env ticket_text documents llm_call = Inr result"
  shows "\<exists>parsed.
           MCPResponse (strip parsed) (select_top_references documents 3)
             (if action (fst (infer_action (floats env) (encode_text env) (strip parsed) (1 / 2))) = str ''none'' \<or>
                 action (fst (infer_action (floats env) (encode_text env) (strip parsed) (1 / 2))) = str ''no_action''
              then str ''none''
              else action (fst (infer_action (floats env) (encode_text env) (strip parsed) (1 / 2)))) = Inr result"
  using assms
  by (auto simp: generate_answer_def Let_def split: if_splits option.splits sum.splits)

lemma strip_idem: "strip (strip s) = strip s"
  by (rule strip_trimmed) (rule trimmed_strip)

lemma length_refs_loop: "length (refs_loop docs refs) = length refs + length docs"
  by (induction docs arbitrary: refs) simp_all

lemma length_select_top_references: "length (select_top_references docs k) \<le> k"
  by (simp add: select_top_references_def length_refs_loop)

lemma best_loop_action: "fst (best_loop fo ps e a b) \<in> insert a (fst ` set ps)"
proof (induction ps arbitrary: a b)
  case Nil
  then show ?case by simp
next
  case (Cons p ps)
  obtain act embs where p: "p = (act, embs)" by (cases p)
  show ?case
  proof (cases "np_max (map (\<lambda>q. float_dot fo q e) embs) > b")
    case True
    with p Cons.IH [of act "np_max (map (\<lambda>q. float_dot fo q e) embs)"] show ?thesis
      by (auto simp: Let_def)
  next
    case False
    with p Cons.IH [of a b] show ?thesis by (auto simp: Let_def)
  qed
qed

lemma prototype_actions: "fst ` set (PROTOTYPE_EMBEDDINGS encode) \<subseteq> set ActionRequired"
  by (simp add: PROTOTYPE_EMBEDDINGS_def ACTION_PROTOTYPES_def ActionRequired_def)

lemma infer_action_action:
  "action (fst (infer_action fo encode ans threshold)) \<in> insert (str ''no_action'') (set ActionRequired)"
proof -
  have "fst (best_loop fo (PROTOTYPE_EMBEDDINGS encode) (encode ans) (str ''no_action'') 0)
      \<in> insert (str ''no_action'') (set ActionRequired)"
    using best_loop_action [of fo "PROTOTYPE_EMBEDDINGS encode" "encode ans" "str ''no_action''" 0]
      prototype_actions [of encode] by blast
  then show ?thesis by (simp add: infer_action_def Let_def)
qed

lemma generate_answer_total:
  assumes t: "strip ticket_text \<noteq> []"
    and l: "llm_call (MCP_GENERATION_PROMPT (strip ticket_text) (build_context documents)) = Some raw"
    and j: "json_answer env raw = Some parsed"
    and a: "strip parsed \<noteq> []" "length (strip parsed) \<le> 5000"
  shows "generate_answer env ticket_text documents llm_call =
     Inr \<lparr>answer = strip parsed,
          references = map strip (filter (\<lambda>r. strip r \<noteq> []) (select_top_references documents 3)),
          action_required =
            (let inferred = action (fst (infer_action (floats env) (encode_text env) (strip parsed) (1 / 2)))
             in if inferred = str ''no_action'' then str ''none'' else inferred)\<rparr>"
proof -
  define inferred where
    "inferred = action (fst (infer_action (floats env) (encode_text env) (strip parsed) (1 / 2)))"
  define norm where
    "norm = (if inferred = str ''none'' \<or> inferred = str ''no_action'' then str ''none'' else inferred)"
  have n: "norm = (if inferred = str ''no_action'' then str ''none'' else inferred)"
    by (simp add: norm_def)
  have "inferred \<in> insert (str ''no_action'') (set ActionRequired)"
    unfolding inferred_def by (rule infer_action_action)
  then have ok: "norm \<in> set ActionRequired" using none_external by (auto simp: n)
  have len: "\<not> 3 < length (filter (\<lambda>r. strip r \<noteq> []) (select_top_references documents 3))"
    using length_filter_le [of "\<lambda>r. strip r \<noteq> []" "select_top_references documents 3"]
      length_select_top_references [of documents 3] by linarith
  have m: "MCPResponse (strip parsed) (select_top_references documents 3) norm =
      Inr \<lparr>answer = strip parsed,
           references = map strip (filter (\<lambda>r. strip r \<noteq> []) (select_top_references documents 3)),
           action_required = norm\<rparr>"
    using a ok len by (simp add: MCPResponse_cases strip_idem)
  from t have t': "ticket_text \<noteq> []" by (auto simp: strip_Nil)
  have "generate_answer env ticket_text documents llm_call =
      (case MCPResponse (strip parsed) (select_top_references documents 3) norm of
         Inl e \<Rightarrow> Inl ValueError | Inr validated \<Rightarrow> Inr validated)"
    using t t' l j by (simp add: generate_answer_def Let_def norm_def inferred_def)
  with m n show ?thesis by (simp add: Let_def inferred_def)
qed


lemma mock_prototypes:
  "PROTOTYPE_EMBEDDINGS mock_encode =
     [(str ''escalate_to_abuse_team'', [[1, 0], [1, 0], [1, 0], [1, 0]]),
      (str ''escalate_to_billing'', [[1, 0], [1, 0], [1, 0], [1, 0]]),
      (str ''escalate_to_technical'', [[1, 0], [1, 0], [1, 0], [1, 0]]),
      (str ''escalate_to_support'', [[1, 0], [1, 0], [1, 0], [1, 0]]),
      (str ''customer_action_required'', [[1, 0], [1, 0], [1, 0], [1, 0]]),
      (str ''follow_up_required'', [[1, 0], [1, 0], [1, 0]]),
      (str ''none'', [[1, 0], [1, 0], [1, 0], [1, 0]])]"
  by (simp add: PROTOTYPE_EMBEDDINGS_def ACTION_PROTOTYPES_def mock_encode_def str_def)

lemma strip_Test: "strip (str ''Test'') = str ''Test''"
  by (simp add: str_def strip_def lstrip_def rstrip_def isspace_def)

lemma length_Test: "length (str ''Test'') = 4"
  by (simp add: str_def)

lemma mock_infer_action:
  "infer_action exact_ops mock_encode (str ''Test'') (1 / 2) =
     (\<lparr>action = str ''no_action'', confidence = 0\<rparr>, [str ''Test''])"
proof -
  have "best_loop exact_ops (PROTOTYPE_EMBEDDINGS mock_encode) [0, 1] (str ''no_action'') 0 =
      (str ''no_action'', 0)"
    unfolding mock_prototypes by (simp add: exact_ops_def dot_def)
  moreover have "mock_encode (str ''Test'') = [0, 1]" by (simp add: mock_encode_def str_def)
  moreover have "str ''Test'' \<noteq> []" by (simp add: str_def)
  ultimately show ?thesis
    by (simp add: infer_action_def strip_Test Let_def exact_ops_def round3_def round_half_even_def)
qed

lemma strip_Help: "strip (str ''Help'') = str ''Help''"
  by (simp add: str_def strip_def lstrip_def rstrip_def isspace_def)

text \<open>
  C7. Constructing the response raises a validation error whenever the answer is blank
  after trimming or longer than 5000 characters, or more than 3 references are left
  after the blank ones are dropped, or the action is outside the seven values of
  \<open>ActionRequired\<close>; in particular for the action \<open>no_action\<close>. A response that
  \<open>generate_answer\<close> returns has an action among the seven values: the action inferred
  for its answer, with the sentinel \<open>no_action\<close> replaced by \<open>none\<close>. And
  \<open>generate_answer\<close> does return a response, with this action, whenever the ticket is
  not blank and the reply of the generation collaborator parses to an answer that is not
  blank and has at most 5000 characters after trimming: so an inferred \<open>no_action\<close>
  never makes the construction fail.
\<close>

theorem response_validation:
  "(strip ans = [] \<or> 5000 < length ans \<or> 3 < length (filter (\<lambda>r. strip r \<noteq> []) refs) \<or>
      act \<notin> set ActionRequired
      \<longrightarrow> MCPResponse ans refs act = Inl ValidationError) \<and>
   MCPResponse ans refs (str ''no_action'') = Inl ValidationError \<and>
   (generate_answer env ticket_text documents llm_call = Inr result \<longrightarrow>
      action_required result \<in> set ActionRequired \<and>
      action_required result =
        (let inferred = action (fst (infer_action (floats env) (encode_text env) (answer result) (1 / 2)))
         in if inferred = str ''no_action'' then str ''none'' else inferred)) \<and>
   (strip ticket_text \<noteq> [] \<and>
    llm_call (MCP_GENERATION_PROMPT (strip ticket_text) (build_context documents)) = Some raw \<and>
    json_answer env raw = Some parsed \<and> strip parsed \<noteq> [] \<and> length (strip parsed) \<le> 5000
      \<longrightarrow> generate_answer env ticket_text documents llm_call =
            Inr \<lparr>answer = strip parsed,
                 references = map strip (filter (\<lambda>r. strip r \<noteq> []) (select_top_references documents 3)),
                 action_required =
                   (let inferred = action (fst (infer_action (floats env) (encode_text env) (strip parsed) (1 / 2)))
                    in if inferred = str ''no_action'' then str ''none'' else inferred)\<rparr>)"
proof (intro conjI impI)
  assume "strip ans = [] \<or> 5000 < length ans \<or> 3 < length (filter (\<lambda>r. strip r \<noteq> []) refs) \<or>
      act \<notin> set ActionRequired"
  then show "MCPResponse ans refs act = Inl ValidationError"
    by (simp add: MCPResponse_cases)
next
  show "MCPResponse ans refs (str ''no_action'') = Inl ValidationError"
    using no_action_not_external by (simp add: MCPResponse_cases)
next
  assume g: "generate_answer env ticket_text documents llm_call = Inr result"
  from generate_answer_Inr [OF g] obtain parsed where
    m: "MCPResponse (strip parsed) (select_top_references documents 3)
          (if action (fst (infer_action (floats env) (encode_text env) (strip parsed) (1 / 2))) = str ''none'' \<or>
              action (fst (infer_action (floats env) (encode_text env) (strip parsed) (1 / 2))) = str ''no_action''
           then str ''none''
           else action (fst (infer_action (floats env) (encode_text env) (strip parsed) (1 / 2)))) = Inr result" ..
  define inferred where
    "inferred = action (fst (infer_action (floats env) (encode_text env) (strip parsed) (1 / 2)))"
  define norm where
    "norm = (if inferred = str ''none'' \<or> inferred = str ''no_action'' then str ''none'' else inferred)"
  from m have m': "MCPResponse (strip parsed) (select_top_references documents 3) norm = Inr result"
    by (simp only: norm_def inferred_def)
  have cases: "MCPResponse (strip parsed) (select_top_references documents 3) norm =
      (if strip (strip parsed) = [] \<or> 5000 < length (strip parsed) \<or>
          3 < length (filter (\<lambda>r. strip r \<noteq> []) (select_top_references documents 3)) \<or>
          norm \<notin> set ActionRequired
       then Inl ValidationError
       else Inr \<lparr>answer = strip (strip parsed),
                 references = map strip (filter (\<lambda>r. strip r \<noteq> []) (select_top_references documents 3)),
                 action_required = norm\<rparr>)"
    by (rule MCPResponse_cases)
  from m' cases have ok: "norm \<in> set ActionRequired"
    by (cases "norm \<in> set ActionRequired") simp_all
  from m' cases have a: "answer result = strip (strip parsed)" and c: "action_required result = norm"
    by (auto split: if_splits)
  from c ok show "action_required result \<in> set ActionRequired" by simp
  have "norm = (if inferred = str ''no_action'' then str ''none'' else inferred)"
    by (simp add: norm_def)
  with c a show "action_required result =
        (let inferred = action (fst (infer_action (floats env) (encode_text env) (answer result) (1 / 2)))
         in if inferred = str ''no_action'' then str ''none'' else inferred)"
    by (simp only: Let_def strip_idem inferred_def)
next
  assume "strip ticket_text \<noteq> [] \<and>
    llm_call (MCP_GENERATION_PROMPT (strip ticket_text) (build_context documents)) = Some raw \<and>
    json_answer env raw = Some parsed \<and> strip parsed \<noteq> [] \<and> length (strip parsed) \<le> 5000"
  then show "generate_answer env ticket_text documents llm_call =
            Inr \<lparr>answer = strip parsed,
                 references = map strip (filter (\<lambda>r. strip r \<noteq> []) (select_top_references documents 3)),
                 action_required =
                   (let inferred = action (fst (infer_action (floats env) (encode_text env) (strip parsed) (1 / 2)))
                    in if inferred = str ''no_action'' then str ''none'' else inferred)\<rparr>"
    using generate_answer_total by blast
qed

theorem response_validation_witness:
  "3 < length (filter (\<lambda>r. strip r \<noteq> []) [str ''a'', str ''b'', str ''c'', str ''d'']) \<and>
   MCPResponse (str ''ok'') [str ''a'', str ''b'', str ''c'', str ''d''] (str ''none'')
     = Inl ValidationError \<and>
   strip (str ''Help'') \<noteq> [] \<and>
   json_answer mock_env mock_raw = Some (str ''Test'') \<and>
   strip (str ''Test'') \<noteq> [] \<and> length (strip (str ''Test'')) \<le> 5000 \<and>
   action (fst (infer_action (floats mock_env) (encode_text mock_env) (str ''Test'') (1 / 2)))
     = str ''no_action'' \<and>
   generate_answer mock_env (str ''Help'') [] (\<lambda>prompt. Some mock_raw) =
     Inr \<lparr>answer = str ''Test'', references = [], action_required = str ''none''\<rparr> \<and>
   str ''none'' \<in> set ActionRequired"
proof -
  have h: "3 < length (filter (\<lambda>r. strip r \<noteq> []) [str ''a'', str ''b'', str ''c'', str ''d''])"
    by (simp add: str_def strip_def lstrip_def rstrip_def isspace_def)
  have t: "strip (str ''Help'') \<noteq> []" by (simp add: strip_Help) (simp add: str_def)
  have j: "json_answer mock_env mock_raw = Some (str ''Test'')" by (simp add: mock_env_def)
  have a: "strip (str ''Test'') \<noteq> []" "length (strip (str ''Test'')) \<le> 5000"
    by (simp_all add: strip_Test length_Test) (simp add: str_def)
  have i: "action (fst (infer_action (floats mock_env) (encode_text mock_env) (str ''Test'') (1 / 2)))
      = str ''no_action''"
    by (simp add: mock_env_def mock_infer_action)
  note th = response_validation [of "str ''ok''" "[str ''a'', str ''b'', str ''c'', str ''d'']"
      "str ''none''" mock_env "str ''Help''" "[]" "\<lambda>prompt. Some mock_raw"
      "\<lparr>answer = str ''Test'', references = [], action_required = str ''none''\<rparr>"
      mock_raw "str ''Test''"]
  from th h have r: "MCPResponse (str ''ok'') [str ''a'', str ''b'', str ''c'', str ''d''] (str ''none'')
     = Inl ValidationError" by blast
  from th t j a have "generate_answer mock_env (str ''Help'') [] (\<lambda>prompt. Some mock_raw) =
      Inr \<lparr>answer = strip (str ''Test''),
           references = map strip (filter (\<lambda>r. strip r \<noteq> []) (select_top_references [] 3)),
           action_required =
             (let inferred = action (fst (infer_action (floats mock_env) (encode_text mock_env)
                                            (strip (str ''Test'')) (1 / 2)))
              in if inferred = str ''no_action'' then str ''none'' else inferred)\<rparr>" by blast
  then have g: "generate_answer mock_env (str ''Help'') [] (\<lambda>prompt. Some mock_raw) =
     Inr \<lparr>answer = str ''Test'', references = [], action_required = str ''none''\<rparr>"
    by (simp add: strip_Test i select_top_references_def)
  from th g have "action_required \<lparr>answer = str ''Test'', references = [], action_required = str ''none''\<rparr>
      \<in> set ActionRequired" by blast
  then have n: "str ''none'' \<in> set ActionRequired" by simp
  from h r t j a i g n show ?thesis by blast
qed

lemma q_facts:
  "strip mock_q1 = mock_q1" "strip mock_q2 = mock_q2" "mock_q1 \<noteq> []" "mock_q2 \<noteq> []"
  "mock_q1 \<noteq> str ''doc''" "mock_q2 \<noteq> str ''doc''" "mock_q1 \<noteq> mock_q2" "mock_q2 \<noteq> mock_q1"
  "str ''doc'' \<noteq> mock_q1" "str ''doc'' \<noteq> mock_q2"
  by (simp_all add: mock_q1_def mock_q2_def str_def strip_def lstrip_def rstrip_def isspace_def)

lemma mock_rewrite:
  "rewrite_ticket ascii_digit (str ''Help'') (\<lambda>prompt. Some mock_raw) = Inr [mock_q1, mock_q2]"
  by (simp add: rewrite_ticket_def Let_def str_def strip_def lstrip_def rstrip_def isspace_def
      splitlines_def islinebreak_def get_default_def lstrip_chars_def sub_numbering_def
      ascii_digit_def mock_raw_def mock_q1_def mock_q2_def)

lemma mock_retrieve:
  assumes "strip q = q" "q \<noteq> []"
  shows "retrieve_documents mock_env q INITIAL_K FINAL_K =
     Inr ([make_doc (str ''doc'') (1 / 2), make_doc q (1 / 2)],
          evaluate_retrieval exact_ops [1 / 2, 1 / 2] [make_doc (str ''doc'') (1 / 2), make_doc q (1 / 2)])"
  using assms
  by (simp add: retrieve_documents_def mock_env_def rerank_documents_def sorted_reverse_def
      INITIAL_K_def FINAL_K_def make_doc_def Let_def)

lemma mock_retrieve_good:
  assumes "strip q = q" "q \<noteq> []" "q \<noteq> str ''doc''"
  shows "retrieve_documents mock_env_good q INITIAL_K FINAL_K =
     Inr ([make_doc (str ''doc'') (if q = mock_q2 then 5 else 9 / 2), make_doc q 4],
          evaluate_retrieval exact_ops [if q = mock_q2 then 5 else 9 / 2, 4]
            [make_doc (str ''doc'') (if q = mock_q2 then 5 else 9 / 2), make_doc q 4])"
  using assms
  by (simp add: retrieve_documents_def mock_env_good_def mock_env_def rerank_documents_def
      sorted_reverse_def INITIAL_K_def FINAL_K_def make_doc_def doc_plain_def Let_def)


lemma label_distinct:
  "str ''partially good'' \<noteq> str ''good''" "str ''poor'' \<noteq> str ''good''"
  "str ''poor'' \<noteq> str ''weak''" "str ''poor'' \<noteq> str ''none''"
  "str ''partially good'' \<noteq> str ''weak''" "str ''good'' \<noteq> str ''poor''"
  "str ''partially good'' \<noteq> str ''poor''"
  by (simp_all add: str_def)

lemma quality_examples:
  "quality (evaluate_retrieval exact_ops [1 / 2, 1 / 2] ds) = str ''poor''"
  "quality (evaluate_retrieval exact_ops [9 / 2, 4] ds) = str ''partially good''"
  "quality (evaluate_retrieval exact_ops [5, 4] ds) = str ''good''"
  "quality (evaluate_retrieval exact_ops [] ds) = str ''poor''"
  "quality (evaluate_retrieval exact_ops [7 / 2] ds) = str ''partially good''"
  "quality (evaluate_retrieval exact_ops [9 / 2, 1] ds) = str ''good''"
  by (simp_all add: evaluate_retrieval_def exact_ops_def Let_def)

lemma mock_queries_loop:
  "queries_loop mock_env [mock_q1, mock_q2] [] initial_best_eval =
     Inr ([make_doc (str ''doc'') (1 / 2), make_doc mock_q1 (1 / 2),
           make_doc (str ''doc'') (1 / 2), make_doc mock_q2 (1 / 2)], initial_best_eval)"
  using label_distinct
  by (simp add: mock_retrieve q_facts update_best_def quality_examples)

lemma mock_queries_loop_good:
  "queries_loop mock_env_good [mock_q1, mock_q2] [] initial_best_eval =
     Inr ([make_doc (str ''doc'') (9 / 2), make_doc mock_q1 4,
           make_doc (str ''doc'') 5, make_doc mock_q2 4],
          evaluate_retrieval exact_ops [5, 4] [make_doc (str ''doc'') 5, make_doc mock_q2 4])"
  using label_distinct
  by (simp add: mock_retrieve_good q_facts update_best_def quality_examples)

lemma mock_final_documents:
  "final_documents [make_doc (str ''doc'') (1 / 2), make_doc mock_q1 (1 / 2),
                    make_doc (str ''doc'') (1 / 2), make_doc mock_q2 (1 / 2)] =
     [make_doc (str ''doc'') (1 / 2), make_doc mock_q1 (1 / 2), make_doc mock_q2 (1 / 2)]"
  using q_facts
  by (simp add: final_documents_def sorted_reverse_def relevance_key_def make_doc_def doc_plain_def
      Let_def)

lemma mock_final_documents_good:
  "final_documents [make_doc (str ''doc'') (9 / 2), make_doc mock_q1 4,
                    make_doc (str ''doc'') 5, make_doc mock_q2 4] =
     [make_doc (str ''doc'') 5, make_doc mock_q1 4, make_doc mock_q2 4]"
  using q_facts
  by (simp add: final_documents_def sorted_reverse_def relevance_key_def make_doc_def doc_plain_def
      Let_def)

lemma mock_reference:
  "format_reference (make_doc text score) = str ''unknown: Unknown Doc | file=unknown_file''"
  by (simp add: format_reference_def make_doc_def doc_plain_def get_default_def str_def)


lemma strip_reference:
  "strip (str ''unknown: Unknown Doc | file=unknown_file'') = str ''unknown: Unknown Doc | file=unknown_file''"
  by (simp add: str_def strip_def lstrip_def rstrip_def isspace_def)

lemma mock_generate_answer_docs:
  assumes "json_answer env mock_raw = Some (str ''Test'')" "floats env = exact_ops"
    "encode_text env = mock_encode"
  shows "generate_answer env (str ''Help'') [make_doc a x, make_doc b y, make_doc c z]
           (\<lambda>prompt. Some mock_raw) =
         Inr \<lparr>answer = str ''Test'',
              references = [str ''unknown: Unknown Doc | file=unknown_file'',
                            str ''unknown: Unknown Doc | file=unknown_file'',
                            str ''unknown: Unknown Doc | file=unknown_file''],
              action_required = str ''none''\<rparr>"
proof -
  have t: "strip (str ''Help'') \<noteq> []" by (simp add: strip_Help) (simp add: str_def)
  have a: "strip (str ''Test'') \<noteq> []" "length (strip (str ''Test'')) \<le> 5000"
    by (simp_all add: strip_Test length_Test) (simp add: str_def)
  have n: "str ''unknown: Unknown Doc | file=unknown_file'' \<noteq> []" by (simp add: str_def)
  have "generate_answer env (str ''Help'') [make_doc a x, make_doc b y, make_doc c z]
           (\<lambda>prompt. Some mock_raw) =
      Inr \<lparr>answer = strip (str ''Test''),
           references = map strip (filter (\<lambda>r. strip r \<noteq> [])
                          (select_top_references [make_doc a x, make_doc b y, make_doc c z] 3)),
           action_required =
             (let inferred = action (fst (infer_action (floats env) (encode_text env)
                                            (strip (str ''Test'')) (1 / 2)))
              in if inferred = str ''no_action'' then str ''none'' else inferred)\<rparr>"
    using t _ assms(1) a by (rule generate_answer_total) simp
  then show ?thesis
    using n by (simp add: assms strip_Test mock_infer_action select_top_references_def
        mock_reference strip_reference)
qed

section \<open>Aggregate quality and the override\<close>

lemma evaluate_retrieval_not_weak: "quality (evaluate_retrieval fo scores docs) \<noteq> str ''weak''"
  by (simp add: evaluate_retrieval_def Let_def str_def)

lemma foldl_update_best:
  assumes "\<forall>ev\<in>set evs. quality ev \<noteq> str ''weak''"
  shows "foldl update_best best evs =
           (if \<exists>ev\<in>set evs. quality ev = str ''good''
            then last (filter (\<lambda>ev. quality ev = str ''good'') evs) else best)"
  using assms
proof (induction evs rule: rev_induct)
  case Nil
  then show ?case by simp
next
  case (snoc ev evs)
  then have ih: "foldl update_best best evs =
           (if \<exists>ev\<in>set evs. quality ev = str ''good''
            then last (filter (\<lambda>ev. quality ev = str ''good'') evs) else best)"
    and nw: "quality ev \<noteq> str ''weak''" by simp_all
  have step: "update_best (foldl update_best best evs) ev =
      (if quality ev = str ''good'' then ev else foldl update_best best evs)"
    using nw by (simp add: update_best_def)
  have "foldl update_best best (evs @ [ev]) = update_best (foldl update_best best evs) ev"
    by simp
  with step ih show ?case by (cases "quality ev = str ''good''") simp_all
qed

lemma retrieve_documents_eval:
  "retrieve_documents env q ik fk = Inr (docs, ev) \<Longrightarrow>
     \<exists>scores. ev = evaluate_retrieval (floats env) scores docs"
  by (auto simp: retrieve_documents_def Let_def split: if_splits)

text \<open>
  The loop over the queries: it returns when every retrieval does, and then it has
  appended the kept documents of the queries, in query order, and folded their
  assessments.
\<close>

lemma queries_loop_runs:
  "queries_loop env qs all_docs best = Inr (docs', best') \<Longrightarrow>
     \<exists>runs. list_all2 (\<lambda>q run. retrieve_documents env q INITIAL_K FINAL_K = Inr run) qs runs \<and>
            docs' = all_docs @ concat (map fst runs) \<and>
            best' = foldl update_best best (map snd runs)"
proof (induction qs arbitrary: all_docs best)
  case Nil
  then show ?case by simp
next
  case (Cons q qs)
  from Cons.prems obtain docs ev where
    r: "retrieve_documents env q INITIAL_K FINAL_K = Inr (docs, ev)" and
    l: "queries_loop env qs (all_docs @ docs) (update_best best ev) = Inr (docs', best')"
    by (auto split: sum.splits)
  from Cons.IH [OF l] obtain runs where
    e: "list_all2 (\<lambda>q run. retrieve_documents env q INITIAL_K FINAL_K = Inr run) qs runs"
      "docs' = (all_docs @ docs) @ concat (map fst runs)"
      "best' = foldl update_best (update_best best ev) (map snd runs)" by blast
  from r e have "list_all2 (\<lambda>q run. retrieve_documents env q INITIAL_K FINAL_K = Inr run)
      (q # qs) ((docs, ev) # runs) \<and>
      docs' = all_docs @ concat (map fst ((docs, ev) # runs)) \<and>
      best' = foldl update_best best (map snd ((docs, ev) # runs))" by simp
  then show ?case by blast
qed

lemma queries_loop_fold:
  assumes "queries_loop env qs all_docs best = Inr (docs', best')"
  shows "\<exists>evs. list_all2 (\<lambda>q ev. \<exists>docs. retrieve_documents env q INITIAL_K FINAL_K = Inr (docs, ev)) qs evs \<and>
           best' = foldl update_best best evs"
proof -
  from queries_loop_runs [OF assms] obtain runs where
    r: "list_all2 (\<lambda>q run. retrieve_documents env q INITIAL_K FINAL_K = Inr run) qs runs"
    and b: "best' = foldl update_best best (map snd runs)" by blast
  from r have "list_all2 (\<lambda>q run. \<exists>docs. retrieve_documents env q INITIAL_K FINAL_K = Inr (docs, snd run))
      qs runs"
    by (rule list_all2_mono) (metis prod.collapse)
  then have "list_all2 (\<lambda>q ev. \<exists>docs. retrieve_documents env q INITIAL_K FINAL_K = Inr (docs, ev))
      qs (map snd runs)" by (simp add: list_all2_map2)
  with b show ?thesis by blast
qed

lemma queries_loop_kept:
  assumes "queries_loop env qs all_docs best = Inr (docs', best')"
  shows "\<exists>kept. list_all2 (\<lambda>q docs. \<exists>ev. retrieve_documents env q INITIAL_K FINAL_K = Inr (docs, ev)) qs kept \<and>
           docs' = all_docs @ concat kept"
proof -
  from queries_loop_runs [OF assms] obtain runs where
    r: "list_all2 (\<lambda>q run. retrieve_documents env q INITIAL_K FINAL_K = Inr run) qs runs"
    and b: "docs' = all_docs @ concat (map fst runs)" by blast
  from r have "list_all2 (\<lambda>q run. \<exists>ev. retrieve_documents env q INITIAL_K FINAL_K = Inr (fst run, ev))
      qs runs"
    by (rule list_all2_mono) (metis prod.collapse)
  then have "list_all2 (\<lambda>q docs. \<exists>ev. retrieve_documents env q INITIAL_K FINAL_K = Inr (docs, ev))
      qs (map fst runs)" by (simp add: list_all2_map2)
  with b show ?thesis by blast
qed

lemma resolve_ticket_Inr:
  assumes "resolve_ticket env ticket_text call_text = Inr res"
  shows "\<exists>rewritten all_docs best result.
           rewrite_ticket (decimal_digit env) ticket_text call_text = Inr rewritten \<and>
           queries_loop env (if rewritten = [] then [ticket_text] else rewritten) []
             initial_best_eval = Inr (all_docs, best) \<and>
           generate_answer env ticket_text (final_documents all_docs) call_text = Inr result \<and>
           res = \<lparr>answer = answer (safety_override best result),
                  references = references (safety_override best result),
                  action_required = action_required (safety_override best result),
                  rewritten_queries = (if rewritten = [] then [ticket_text] else rewritten),
                  reranked_docs = final_documents all_docs, retrieval_eval = best\<rparr>"
proof -
  obtain rewritten where w: "rewrite_ticket (decimal_digit env) ticket_text call_text = Inr rewritten"
    using assms by (cases "rewrite_ticket (decimal_digit env) ticket_text call_text")
      (simp_all add: resolve_ticket_def)
  define queries where "queries = (if rewritten = [] then [ticket_text] else rewritten)"
  obtain all_docs best where l: "queries_loop env queries [] initial_best_eval = Inr (all_docs, best)"
    using assms w by (cases "queries_loop env queries [] initial_best_eval")
      (auto simp add: resolve_ticket_def queries_def Let_def simp del: queries_loop.simps)
  obtain result where
    g: "generate_answer env ticket_text (final_documents all_docs) call_text = Inr result"
    using assms w l
    by (cases "generate_answer env ticket_text (final_documents all_docs) call_text")
      (auto simp add: resolve_ticket_def queries_def Let_def simp del: queries_loop.simps)
  have "res = \<lparr>answer = answer (safety_override best result),
                  references = references (safety_override best result),
                  action_required = action_required (safety_override best result),
                  rewritten_queries = queries,
                  reranked_docs = final_documents all_docs, retrieval_eval = best\<rparr>"
    using assms w l g
    by (simp add: resolve_ticket_def queries_def [symmetric] Let_def del: queries_loop.simps)
  with w l g show ?thesis unfolding queries_def by blast
qed

lemma resolve_ticket_run:
  assumes "rewrite_ticket (decimal_digit env) ticket_text call_text = Inr rewritten"
    and "queries_loop env (if rewritten = [] then [ticket_text] else rewritten) []
           initial_best_eval = Inr (all_docs, best)"
    and "generate_answer env ticket_text (final_documents all_docs) call_text = Inr result"
  shows "resolve_ticket env ticket_text call_text =
           Inr \<lparr>answer = answer (safety_override best result),
                references = references (safety_override best result),
                action_required = action_required (safety_override best result),
                rewritten_queries = (if rewritten = [] then [ticket_text] else rewritten),
                reranked_docs = final_documents all_docs, retrieval_eval = best\<rparr>"
proof -
  define queries where "queries = (if rewritten = [] then [ticket_text] else rewritten)"
  from assms show ?thesis
    unfolding queries_def [symmetric]
    by (simp add: resolve_ticket_def queries_def [symmetric] Let_def del: queries_loop.simps)
qed

lemma safety_override_fields:
  "answer (safety_override best result) = answer result"
  "references (safety_override best result) = references result"
  "action_required (safety_override best result) =
     (if quality best = str ''poor'' \<and> action_required result = str ''none''
      then str ''follow_up_required'' else action_required result)"
  by (simp_all add: safety_override_def)


lemma mock_resolve_ticket_good:
  "resolve_ticket mock_env_good (str ''Help'') (\<lambda>prompt. Some mock_raw) =
     Inr \<lparr>answer = str ''Test'',
          references = [str ''unknown: Unknown Doc | file=unknown_file'',
                        str ''unknown: Unknown Doc | file=unknown_file'',
                        str ''unknown: Unknown Doc | file=unknown_file''],
          action_required = str ''none'',
          rewritten_queries = [mock_q1, mock_q2],
          reranked_docs = [make_doc (str ''doc'') 5, make_doc mock_q1 4, make_doc mock_q2 4],
          retrieval_eval =
            evaluate_retrieval exact_ops [5, 4] [make_doc (str ''doc'') 5, make_doc mock_q2 4]\<rparr>"
proof -
  have w: "rewrite_ticket (decimal_digit mock_env_good) (str ''Help'') (\<lambda>prompt. Some mock_raw) =
      Inr [mock_q1, mock_q2]"
    by (simp add: mock_env_good_def mock_env_def mock_rewrite)
  have l: "queries_loop mock_env_good
      (if [mock_q1, mock_q2] = [] then [str ''Help''] else [mock_q1, mock_q2]) [] initial_best_eval =
      Inr ([make_doc (str ''doc'') (9 / 2), make_doc mock_q1 4,
            make_doc (str ''doc'') 5, make_doc mock_q2 4],
           evaluate_retrieval exact_ops [5, 4] [make_doc (str ''doc'') 5, make_doc mock_q2 4])"
    by (simp add: mock_queries_loop_good del: queries_loop.simps)
  have g: "generate_answer mock_env_good (str ''Help'')
      (final_documents [make_doc (str ''doc'') (9 / 2), make_doc mock_q1 4,
                        make_doc (str ''doc'') 5, make_doc mock_q2 4])
      (\<lambda>prompt. Some mock_raw) =
      Inr \<lparr>answer = str ''Test'',
           references = [str ''unknown: Unknown Doc | file=unknown_file'',
                         str ''unknown: Unknown Doc | file=unknown_file'',
                         str ''unknown: Unknown Doc | file=unknown_file''],
           action_required = str ''none''\<rparr>"
    unfolding mock_final_documents_good
    by (rule mock_generate_answer_docs) (simp_all add: mock_env_good_def mock_env_def)
  show ?thesis
    unfolding resolve_ticket_run [OF w l g]
    using label_distinct
    by (simp add: safety_override_fields mock_final_documents_good quality_examples)
qed

text \<open>
  C3. The assessments of the queries are folded in query order by the \<open>if\<close>/\<open>elif\<close> of
  the orchestrator. When every assessment comes from \<open>evaluate_retrieval\<close>, the result
  is the last assessment whose quality is \<open>good\<close> if there is one and the initial
  \<open>{quality: poor}\<close> otherwise, and the \<open>elif\<close> branch, which tests the label \<open>weak\<close>,
  runs for none of them. The loop over the queries computes this fold on the
  assessments that \<open>retrieve_documents\<close> returns, each of which comes from
  \<open>evaluate_retrieval\<close>.
\<close>

theorem aggregate_last_good:
  "((\<forall>ev\<in>set evs. \<exists>fo scores docs. ev = evaluate_retrieval fo scores docs) \<longrightarrow>
      foldl update_best initial_best_eval evs =
        (if \<exists>ev\<in>set evs. quality ev = str ''good''
         then last (filter (\<lambda>ev. quality ev = str ''good'') evs) else initial_best_eval) \<and>
      (\<forall>ev\<in>set evs. \<forall>best. \<not> weak_branch_taken best ev)) \<and>
   (queries_loop env qs [] initial_best_eval = Inr (all_docs, best_eval) \<longrightarrow>
      (\<exists>evs'. list_all2 (\<lambda>q ev. \<exists>docs. retrieve_documents env q INITIAL_K FINAL_K = Inr (docs, ev)) qs evs' \<and>
         (\<forall>ev\<in>set evs'. \<exists>scores docs. ev = evaluate_retrieval (floats env) scores docs) \<and>
         best_eval = foldl update_best initial_best_eval evs'))"
proof (intro conjI impI)
  assume a: "\<forall>ev\<in>set evs. \<exists>fo scores docs. ev = evaluate_retrieval fo scores docs"
  then have nw: "\<forall>ev\<in>set evs. quality ev \<noteq> str ''weak''"
    using evaluate_retrieval_not_weak by auto
  then show "foldl update_best initial_best_eval evs =
        (if \<exists>ev\<in>set evs. quality ev = str ''good''
         then last (filter (\<lambda>ev. quality ev = str ''good'') evs) else initial_best_eval)"
    by (rule foldl_update_best)
  from nw show "\<forall>ev\<in>set evs. \<forall>best. \<not> weak_branch_taken best ev"
    by (simp add: weak_branch_taken_def)
next
  assume "queries_loop env qs [] initial_best_eval = Inr (all_docs, best_eval)"
  from queries_loop_fold [OF this] obtain evs' where
    e: "list_all2 (\<lambda>q ev. \<exists>docs. retrieve_documents env q INITIAL_K FINAL_K = Inr (docs, ev)) qs evs'"
      "best_eval = foldl update_best initial_best_eval evs'" by blast
  have "\<forall>ev\<in>set evs'. \<exists>scores docs. ev = evaluate_retrieval (floats env) scores docs"
  proof
    fix ev assume "ev \<in> set evs'"
    then obtain i where "i < length evs'" "ev = evs' ! i" by (auto simp: in_set_conv_nth)
    with e(1) obtain docs where "retrieve_documents env (qs ! i) INITIAL_K FINAL_K = Inr (docs, ev)"
      by (auto simp: list_all2_conv_all_nth)
    then show "\<exists>scores docs. ev = evaluate_retrieval (floats env) scores docs"
      using retrieve_documents_eval by blast
  qed
  with e show "\<exists>evs'. list_all2 (\<lambda>q ev. \<exists>docs. retrieve_documents env q INITIAL_K FINAL_K = Inr (docs, ev)) qs evs' \<and>
         (\<forall>ev\<in>set evs'. \<exists>scores docs. ev = evaluate_retrieval (floats env) scores docs) \<and>
         best_eval = foldl update_best initial_best_eval evs'" by blast
qed

theorem aggregate_last_good_witness:
  "list_all (\<lambda>ev. \<exists>fo scores docs. ev = evaluate_retrieval fo scores docs)
     [evaluate_retrieval exact_ops [5, 4] [], evaluate_retrieval exact_ops [7 / 2] [],
      evaluate_retrieval exact_ops [9 / 2, 1] [], evaluate_retrieval exact_ops [] []] \<and>
   foldl update_best initial_best_eval
     [evaluate_retrieval exact_ops [5, 4] [], evaluate_retrieval exact_ops [7 / 2] [],
      evaluate_retrieval exact_ops [9 / 2, 1] [], evaluate_retrieval exact_ops [] []] =
     evaluate_retrieval exact_ops [9 / 2, 1] [] \<and>
   queries_loop mock_env_good [mock_q1, mock_q2] [] initial_best_eval =
     Inr ([make_doc (str ''doc'') (9 / 2), make_doc mock_q1 4,
           make_doc (str ''doc'') 5, make_doc mock_q2 4],
          evaluate_retrieval exact_ops [5, 4] [make_doc (str ''doc'') 5, make_doc mock_q2 4]) \<and>
   (\<exists>evs'. length evs' = 2 \<and>
      evaluate_retrieval exact_ops [5, 4] [make_doc (str ''doc'') 5, make_doc mock_q2 4] =
        foldl update_best initial_best_eval evs')"
proof -
  let ?evs = "[evaluate_retrieval exact_ops [5, 4] [], evaluate_retrieval exact_ops [7 / 2] [],
               evaluate_retrieval exact_ops [9 / 2, 1] [], evaluate_retrieval exact_ops [] []]"
  let ?best = "evaluate_retrieval exact_ops [5, 4] [make_doc (str ''doc'') 5, make_doc mock_q2 4]"
  have h: "\<forall>ev\<in>set ?evs. \<exists>fo scores docs. ev = evaluate_retrieval fo scores docs"
    by (simp only: list.set ball_simps) blast
  note t = aggregate_last_good [of ?evs mock_env_good "[mock_q1, mock_q2]"
      "[make_doc (str ''doc'') (9 / 2), make_doc mock_q1 4, make_doc (str ''doc'') 5, make_doc mock_q2 4]"
      ?best]
  from t h
  have "foldl update_best initial_best_eval ?evs =
        (if \<exists>ev\<in>set ?evs. quality ev = str ''good''
         then last (filter (\<lambda>ev. quality ev = str ''good'') ?evs) else initial_best_eval)"
    by blast
  also have "\<dots> = evaluate_retrieval exact_ops [9 / 2, 1] []"
    by (simp add: quality_examples label_distinct)
  finally have f: "foldl update_best initial_best_eval ?evs = evaluate_retrieval exact_ops [9 / 2, 1] []" .
  from t mock_queries_loop_good obtain evs' where
    "list_all2 (\<lambda>q ev. \<exists>docs. retrieve_documents mock_env_good q INITIAL_K FINAL_K = Inr (docs, ev))
       [mock_q1, mock_q2] evs'"
    "?best = foldl update_best initial_best_eval evs'" by blast
  then have "length evs' = 2 \<and> ?best = foldl update_best initial_best_eval evs'"
    by (auto dest: list_all2_lengthD)
  then have ex: "\<exists>evs'. length evs' = 2 \<and> ?best = foldl update_best initial_best_eval evs'" ..
  from h have "list_all (\<lambda>ev. \<exists>fo scores docs. ev = evaluate_retrieval fo scores docs) ?evs"
    by (simp only: list_all_iff)
  with f mock_queries_loop_good ex show ?thesis by (intro conjI)
qed

text \<open>
  C4. The override changes the action to \<open>follow_up_required\<close> exactly when the
  aggregate quality is \<open>poor\<close> and the action is \<open>none\<close>; in every other case the
  result is unchanged, and the answer is unchanged in all cases. In \<open>resolve_ticket\<close>
  the aggregate is the assessment that the loop over the rewritten queries returns, and
  the action is that of the response generated for the final documents: the result of
  \<open>resolve_ticket\<close> is this response with the override applied, together with the
  queries, the final documents and the aggregate; and \<open>resolve_ticket\<close> returns it
  whenever the rewriting, the loop and the generation return.
\<close>

theorem safety_override_forces_follow_up:
  "safety_override best_eval generated =
     (if quality best_eval = str ''poor'' \<and> action_required generated = str ''none''
      then generated\<lparr>action_required := str ''follow_up_required''\<rparr> else generated) \<and>
   answer (safety_override best_eval generated) = answer generated \<and>
   (resolve_ticket env ticket_text call_text = Inr res \<longrightarrow>
      (\<exists>rewritten all_docs best result.
         rewrite_ticket (decimal_digit env) ticket_text call_text = Inr rewritten \<and>
         rewritten_queries res = (if rewritten = [] then [ticket_text] else rewritten) \<and>
         queries_loop env (rewritten_queries res) [] initial_best_eval = Inr (all_docs, best) \<and>
         retrieval_eval res = best \<and>
         reranked_docs res = final_documents all_docs \<and>
         generate_answer env ticket_text (reranked_docs res) call_text = Inr result \<and>
         answer res = answer result \<and> references res = references result \<and>
         action_required res =
           (if quality best = str ''poor'' \<and> action_required result = str ''none''
            then str ''follow_up_required'' else action_required result))) \<and>
   (rewrite_ticket (decimal_digit env) ticket_text call_text = Inr queries \<and>
    queries_loop env (if queries = [] then [ticket_text] else queries) [] initial_best_eval =
      Inr (docs, aggregate) \<and>
    generate_answer env ticket_text (final_documents docs) call_text = Inr response
      \<longrightarrow> resolve_ticket env ticket_text call_text =
            Inr \<lparr>answer = answer response, references = references response,
                 action_required =
                   (if quality aggregate = str ''poor'' \<and> action_required response = str ''none''
                    then str ''follow_up_required'' else action_required response),
                 rewritten_queries = (if queries = [] then [ticket_text] else queries),
                 reranked_docs = final_documents docs, retrieval_eval = aggregate\<rparr>)"
proof (intro conjI impI)
  show "safety_override best_eval generated =
     (if quality best_eval = str ''poor'' \<and> action_required generated = str ''none''
      then generated\<lparr>action_required := str ''follow_up_required''\<rparr> else generated)"
    by (simp add: safety_override_def)
  show "answer (safety_override best_eval generated) = answer generated"
    by (simp add: safety_override_def)
next
  assume "resolve_ticket env ticket_text call_text = Inr res"
  from resolve_ticket_Inr [OF this] obtain rewritten all_docs best result where
    w: "rewrite_ticket (decimal_digit env) ticket_text call_text = Inr rewritten" and
    l: "queries_loop env (if rewritten = [] then [ticket_text] else rewritten) []
          initial_best_eval = Inr (all_docs, best)" and
    g: "generate_answer env ticket_text (final_documents all_docs) call_text = Inr result" and
    r: "res = \<lparr>answer = answer (safety_override best result),
              references = references (safety_override best result),
              action_required = action_required (safety_override best result),
              rewritten_queries = (if rewritten = [] then [ticket_text] else rewritten),
              reranked_docs = final_documents all_docs, retrieval_eval = best\<rparr>"
    by blast
  from r have f: "rewritten_queries res = (if rewritten = [] then [ticket_text] else rewritten)"
    "reranked_docs res = final_documents all_docs" "retrieval_eval res = best"
    "answer res = answer result" "references res = references result"
    "action_required res =
       (if quality best = str ''poor'' \<and> action_required result = str ''none''
        then str ''follow_up_required'' else action_required result)"
    by (simp_all add: safety_override_fields)
  show "\<exists>rewritten all_docs best result.
         rewrite_ticket (decimal_digit env) ticket_text call_text = Inr rewritten \<and>
         rewritten_queries res = (if rewritten = [] then [ticket_text] else rewritten) \<and>
         queries_loop env (rewritten_queries res) [] initial_best_eval = Inr (all_docs, best) \<and>
         retrieval_eval res = best \<and>
         reranked_docs res = final_documents all_docs \<and>
         generate_answer env ticket_text (reranked_docs res) call_text = Inr result \<and>
         answer res = answer result \<and> references res = references result \<and>
         action_required res =
           (if quality best = str ''poor'' \<and> action_required result = str ''none''
            then str ''follow_up_required'' else action_required result)"
  proof (intro exI conjI)
    show "rewrite_ticket (decimal_digit env) ticket_text call_text = Inr rewritten" by (rule w)
    show "rewritten_queries res = (if rewritten = [] then [ticket_text] else rewritten)" by (rule f(1))
    show "queries_loop env (rewritten_queries res) [] initial_best_eval = Inr (all_docs, best)"
      using l by (simp only: f(1))
    show "retrieval_eval res = best" by (rule f(3))
    show "reranked_docs res = final_documents all_docs" by (rule f(2))
    show "generate_answer env ticket_text (reranked_docs res) call_text = Inr result"
      using g by (simp only: f(2))
    show "answer res = answer result" by (rule f(4))
    show "references res = references result" by (rule f(5))
    show "action_required res =
       (if quality best = str ''poor'' \<and> action_required result = str ''none''
        then str ''follow_up_required'' else action_required result)" by (rule f(6))
  qed
next
  assume a: "rewrite_ticket (decimal_digit env) ticket_text call_text = Inr queries \<and>
    queries_loop env (if queries = [] then [ticket_text] else queries) [] initial_best_eval =
      Inr (docs, aggregate) \<and>
    generate_answer env ticket_text (final_documents docs) call_text = Inr response"
  then have w: "rewrite_ticket (decimal_digit env) ticket_text call_text = Inr queries"
    and l: "queries_loop env (if queries = [] then [ticket_text] else queries) []
      initial_best_eval = Inr (docs, aggregate)"
    and g: "generate_answer env ticket_text (final_documents docs) call_text = Inr response"
    by blast+
  show "resolve_ticket env ticket_text call_text =
            Inr \<lparr>answer = answer response, references = references response,
                 action_required =
                   (if quality aggregate = str ''poor'' \<and> action_required response = str ''none''
                    then str ''follow_up_required'' else action_required response),
                 rewritten_queries = (if queries = [] then [ticket_text] else queries),
                 reranked_docs = final_documents docs, retrieval_eval = aggregate\<rparr>"
    unfolding resolve_ticket_run [OF w l g] by (simp only: safety_override_fields)
qed

theorem safety_override_forces_follow_up_witness:
  "rewrite_ticket (decimal_digit mock_env) (str ''Help'') (\<lambda>prompt. Some mock_raw) =
     Inr [mock_q1, mock_q2] \<and>
   queries_loop mock_env [mock_q1, mock_q2] [] initial_best_eval =
     Inr ([make_doc (str ''doc'') (1 / 2), make_doc mock_q1 (1 / 2),
           make_doc (str ''doc'') (1 / 2), make_doc mock_q2 (1 / 2)], initial_best_eval) \<and>
   quality initial_best_eval = str ''poor'' \<and>
   resolve_ticket mock_env (str ''Help'') (\<lambda>prompt. Some mock_raw) =
     Inr \<lparr>answer = str ''Test'',
          references = [str ''unknown: Unknown Doc | file=unknown_file'',
                        str ''unknown: Unknown Doc | file=unknown_file'',
                        str ''unknown: Unknown Doc | file=unknown_file''],
          action_required = str ''follow_up_required'',
          rewritten_queries = [mock_q1, mock_q2],
          reranked_docs = [make_doc (str ''doc'') (1 / 2), make_doc mock_q1 (1 / 2),
                           make_doc mock_q2 (1 / 2)],
          retrieval_eval = initial_best_eval\<rparr> \<and>
   queries_loop mock_env_good [mock_q1, mock_q2] [] initial_best_eval =
     Inr ([make_doc (str ''doc'') (9 / 2), make_doc mock_q1 4,
           make_doc (str ''doc'') 5, make_doc mock_q2 4],
          evaluate_retrieval exact_ops [5, 4] [make_doc (str ''doc'') 5, make_doc mock_q2 4]) \<and>
   quality (evaluate_retrieval exact_ops [5, 4] [make_doc (str ''doc'') 5, make_doc mock_q2 4]) =
     str ''good'' \<and>
   resolve_ticket mock_env_good (str ''Help'') (\<lambda>prompt. Some mock_raw) =
     Inr \<lparr>answer = str ''Test'',
          references = [str ''unknown: Unknown Doc | file=unknown_file'',
                        str ''unknown: Unknown Doc | file=unknown_file'',
                        str ''unknown: Unknown Doc | file=unknown_file''],
          action_required = str ''none'',
          rewritten_queries = [mock_q1, mock_q2],
          reranked_docs = [make_doc (str ''doc'') 5, make_doc mock_q1 4, make_doc mock_q2 4],
          retrieval_eval =
            evaluate_retrieval exact_ops [5, 4] [make_doc (str ''doc'') 5, make_doc mock_q2 4]\<rparr> \<and>
   safety_override initial_best_eval
     \<lparr>answer = str ''Test'', references = [], action_required = str ''escalate_to_billing''\<rparr> =
     \<lparr>answer = str ''Test'', references = [], action_required = str ''escalate_to_billing''\<rparr>"
proof -
  let ?refs = "[str ''unknown: Unknown Doc | file=unknown_file'',
                str ''unknown: Unknown Doc | file=unknown_file'',
                str ''unknown: Unknown Doc | file=unknown_file'']"
  let ?billing = "\<lparr>answer = str ''Test'', references = [], action_required = str ''escalate_to_billing''\<rparr>"
  let ?none = "\<lparr>answer = str ''Test'', references = ?refs, action_required = str ''none''\<rparr>"
  let ?poor_docs = "[make_doc (str ''doc'') (1 / 2), make_doc mock_q1 (1 / 2),
                     make_doc (str ''doc'') (1 / 2), make_doc mock_q2 (1 / 2)]"
  let ?good_docs = "[make_doc (str ''doc'') (9 / 2), make_doc mock_q1 4,
                     make_doc (str ''doc'') 5, make_doc mock_q2 4]"
  let ?good = "evaluate_retrieval exact_ops [5, 4] [make_doc (str ''doc'') 5, make_doc mock_q2 4]"
  have p: "quality initial_best_eval = str ''poor''" by (simp add: initial_best_eval_def)
  have gq: "quality ?good = str ''good''" by (rule quality_examples)
  have n: "str ''escalate_to_billing'' \<noteq> str ''none''" by (simp add: str_def)
  have w: "rewrite_ticket (decimal_digit mock_env) (str ''Help'') (\<lambda>prompt. Some mock_raw) =
      Inr [mock_q1, mock_q2]"
    by (simp add: mock_env_def mock_rewrite)
  have w': "rewrite_ticket (decimal_digit mock_env_good) (str ''Help'') (\<lambda>prompt. Some mock_raw) =
      Inr [mock_q1, mock_q2]"
    by (simp add: mock_env_good_def mock_env_def mock_rewrite)
  have q: "(if [mock_q1, mock_q2] = [] then [str ''Help''] else [mock_q1, mock_q2]) = [mock_q1, mock_q2]"
    by simp
  have g: "generate_answer mock_env (str ''Help'') (final_documents ?poor_docs)
      (\<lambda>prompt. Some mock_raw) = Inr ?none"
    unfolding mock_final_documents
    by (rule mock_generate_answer_docs) (simp_all add: mock_env_def)
  have g': "generate_answer mock_env_good (str ''Help'') (final_documents ?good_docs)
      (\<lambda>prompt. Some mock_raw) = Inr ?none"
    unfolding mock_final_documents_good
    by (rule mock_generate_answer_docs) (simp_all add: mock_env_good_def mock_env_def)
  note poor = safety_override_forces_follow_up [of initial_best_eval ?billing mock_env "str ''Help''"
      "\<lambda>prompt. Some mock_raw" _ "[mock_q1, mock_q2]" ?poor_docs initial_best_eval ?none]
  note good = safety_override_forces_follow_up [of initial_best_eval ?billing mock_env_good "str ''Help''"
      "\<lambda>prompt. Some mock_raw" _ "[mock_q1, mock_q2]" ?good_docs ?good ?none]
  from poor n have o: "safety_override initial_best_eval ?billing = ?billing" by simp
  from poor w mock_queries_loop g
  have r: "resolve_ticket mock_env (str ''Help'') (\<lambda>prompt. Some mock_raw) =
      Inr \<lparr>answer = str ''Test'', references = ?refs, action_required = str ''follow_up_required'',
           rewritten_queries = [mock_q1, mock_q2],
           reranked_docs = [make_doc (str ''doc'') (1 / 2), make_doc mock_q1 (1 / 2),
                            make_doc mock_q2 (1 / 2)],
           retrieval_eval = initial_best_eval\<rparr>"
    by (simp only: q mock_final_documents) (simp add: p)
  from good w' mock_queries_loop_good g'
  have r': "resolve_ticket mock_env_good (str ''Help'') (\<lambda>prompt. Some mock_raw) =
      Inr \<lparr>answer = str ''Test'', references = ?refs, action_required = str ''none'',
           rewritten_queries = [mock_q1, mock_q2],
           reranked_docs = [make_doc (str ''doc'') 5, make_doc mock_q1 4, make_doc mock_q2 4],
           retrieval_eval = ?good\<rparr>"
    by (simp only: q mock_final_documents_good) (simp add: gq label_distinct)
  from w mock_queries_loop p r mock_queries_loop_good gq r' o show ?thesis by (intro conjI)
qed

section \<open>Deduplication and global ranking\<close>

lemma ranks_no_lower_key: "ranks_no_lower a b \<longleftrightarrow> relevance_key b \<le> relevance_key a"
  by (simp add: ranks_no_lower_def relevance_key_def split: option.splits)

lemma set_insort_desc: "set (insort_desc key x ys) = insert x (set ys)"
  by (induction ys) auto

lemma length_insort_desc: "length (insort_desc key x ys) = Suc (length ys)"
  by (induction ys) auto

lemma sorted_insort_desc:
  "sorted_wrt (\<lambda>a b. key b \<le> key a) ys \<Longrightarrow> sorted_wrt (\<lambda>a b. key b \<le> key a) (insort_desc key x ys)"
  by (induction ys) (auto simp: set_insort_desc)

lemma distinct_map_insort_desc:
  "distinct (map f (insort_desc key x ys)) \<longleftrightarrow> f x \<notin> f ` set ys \<and> distinct (map f ys)"
  by (induction ys) (auto simp: set_insort_desc)

lemma set_sorted_reverse: "set (sorted_reverse key xs) = set xs"
  by (induction xs) (simp_all add: sorted_reverse_def set_insort_desc)

lemma length_sorted_reverse: "length (sorted_reverse key xs) = length xs"
  by (induction xs) (simp_all add: sorted_reverse_def length_insort_desc)

lemma sorted_sorted_reverse: "sorted_wrt (\<lambda>a b. key b \<le> key a) (sorted_reverse key xs)"
  by (induction xs) (simp_all add: sorted_reverse_def sorted_insort_desc)

lemma distinct_map_sorted_reverse:
  "distinct (map f (sorted_reverse key xs)) \<longleftrightarrow> distinct (map f xs)"
proof (induction xs)
  case Nil
  then show ?case by (simp add: sorted_reverse_def)
next
  case (Cons x xs)
  have "sorted_reverse key (x # xs) = insort_desc key x (sorted_reverse key xs)"
    by (simp add: sorted_reverse_def)
  with Cons show ?case by (simp add: distinct_map_insort_desc set_sorted_reverse)
qed

lemma keys_dict_set:
  "map fst (dict_set kvs k v) = (if k \<in> fst ` set kvs then map fst kvs else map fst kvs @ [k])"
proof (induction kvs)
  case Nil
  then show ?case by simp
next
  case (Cons kv kvs)
  obtain k' v' where kv: "kv = (k', v')" by (cases kv)
  show ?case
  proof (cases "k' = k")
    case True
    with kv show ?thesis by simp
  next
    case False
    with kv Cons.IH show ?thesis by (cases "k \<in> fst ` set kvs") simp_all
  qed
qed

lemma map_of_dict_set: "map_of (dict_set kvs k v) = (map_of kvs)(k \<mapsto> v)"
  by (induction kvs) (auto simp: fun_eq_iff)

lemma distinct_dict_set: "distinct (map fst kvs) \<Longrightarrow> distinct (map fst (dict_set kvs k v))"
  by (simp add: keys_dict_set)

lemma distinct_dedup_loop:
  "distinct (map fst kvs) \<Longrightarrow> distinct (map fst (dedup_loop ds kvs))"
  by (induction ds arbitrary: kvs) (simp_all add: distinct_dict_set)

lemma map_of_dedup_loop:
  "map_of (dedup_loop ds kvs) k =
     (case filter (\<lambda>e. page_content e = k) ds of [] \<Rightarrow> map_of kvs k | f # fs \<Rightarrow> Some (last (f # fs)))"
proof (induction ds arbitrary: kvs)
  case Nil
  then show ?case by simp
next
  case (Cons d ds)
  show ?case
  proof (cases "page_content d = k")
    case True
    then show ?thesis
      by (cases "filter (\<lambda>e. page_content e = k) ds") (simp_all add: Cons.IH map_of_dict_set)
  next
    case False
    then show ?thesis
      by (cases "filter (\<lambda>e. page_content e = k) ds") (simp_all add: Cons.IH map_of_dict_set)
  qed
qed

lemma set_pool:
  "set (map snd (dedup_loop all_docs [])) = {d. last_occurrence all_docs d}"
proof -
  let ?kvs = "dedup_loop all_docs []"
  have dist: "distinct (map fst ?kvs)" by (rule distinct_dedup_loop) simp
  have mo: "map_of ?kvs k =
     (case filter (\<lambda>e. page_content e = k) all_docs of [] \<Rightarrow> None | f # fs \<Rightarrow> Some (last (f # fs)))" for k
    by (simp add: map_of_dedup_loop split: list.splits)
  have "set (map snd ?kvs) = ran (map_of ?kvs)"
    using dist by (simp add: ran_distinct)
  also have "\<dots> = {d. last_occurrence all_docs d}"
  proof (intro set_eqI iffI)
    fix d assume "d \<in> ran (map_of ?kvs)"
    then obtain k where k: "map_of ?kvs k = Some d" by (auto simp: ran_def)
    then obtain f fs where fs: "filter (\<lambda>e. page_content e = k) all_docs = f # fs" "d = last (f # fs)"
      by (auto simp: mo split: list.splits)
    then have "d \<in> set (filter (\<lambda>e. page_content e = k) all_docs)"
      by (metis last_in_set list.distinct(1))
    then have "d \<in> set all_docs" "page_content d = k" by auto
    with fs show "d \<in> {d. last_occurrence all_docs d}" by (simp add: last_occurrence_def)
  next
    fix d assume "d \<in> {d. last_occurrence all_docs d}"
    then have d: "d \<in> set all_docs" "d = last (filter (\<lambda>e. page_content e = page_content d) all_docs)"
      by (simp_all add: last_occurrence_def)
    from d(1) have "filter (\<lambda>e. page_content e = page_content d) all_docs \<noteq> []"
      by (auto simp: filter_empty_conv)
    then obtain f fs where "filter (\<lambda>e. page_content e = page_content d) all_docs = f # fs"
      by (cases "filter (\<lambda>e. page_content e = page_content d) all_docs") auto
    with d(2) have "map_of ?kvs (page_content d) = Some d" by (simp add: mo)
    then show "d \<in> ran (map_of ?kvs)" by (auto simp: ran_def)
  qed
  finally show ?thesis .
qed

lemma set_dict_set_subset: "set (dict_set kvs k v) \<subseteq> insert (k, v) (set kvs)"
  by (induction kvs) (auto split: if_splits)

lemma dict_set_content:
  "\<forall>(k, v)\<in>set kvs. page_content v = k \<Longrightarrow> \<forall>(k, v)\<in>set (dict_set kvs (page_content d) d). page_content v = k"
  using set_dict_set_subset [of kvs "page_content d" d] by auto

lemma dedup_loop_content:
  "\<forall>(k, v)\<in>set kvs. page_content v = k \<Longrightarrow> \<forall>(k, v)\<in>set (dedup_loop ds kvs). page_content v = k"
proof (induction ds arbitrary: kvs)
  case Nil
  then show ?case by simp
next
  case (Cons d ds)
  from Cons.prems have "\<forall>(k, v)\<in>set (dict_set kvs (page_content d) d). page_content v = k"
    by (rule dict_set_content)
  then show ?case by (simp add: Cons.IH)
qed

lemma keys_dedup_loop: "fst ` set (dedup_loop ds kvs) = fst ` set kvs \<union> page_content ` set ds"
proof (induction ds arbitrary: kvs)
  case Nil
  then show ?case by simp
next
  case (Cons d ds)
  have "fst ` set (dict_set kvs (page_content d) d) = insert (page_content d) (fst ` set kvs)"
    using keys_dict_set [of kvs "page_content d" d]
    by (metis (no_types, lifting) insert_absorb list.set_map set_append list.simps(15) Un_insert_right
        sup_bot.right_neutral empty_set)
  then show ?case by (simp add: Cons.IH)
qed

lemma pool_contents:
  "map page_content (map snd (dedup_loop all_docs [])) = map fst (dedup_loop all_docs [])"
proof -
  have "\<forall>(k, v)\<in>set (dedup_loop all_docs []). page_content v = k"
    by (rule dedup_loop_content) simp
  then show ?thesis by (auto simp: map_eq_conv)
qed


text \<open>
  C6. The final documents of the aggregator: at most 4, as many as there are distinct
  contents when these are fewer; their contents are pairwise different; each is the
  last occurrence of its content among all the kept documents, so that the metadata of
  the last occurrence wins; they stand in descending order of \<open>relevance_score\<close>, a
  document without the field after every document that has it; every deduplicated
  document that is left out ranks no higher than each final document; and the
  deduplicated documents cover the contents of all the kept documents. The documents
  pooled by the loop over the queries are the kept documents of the queries, in query
  order, each list as \<open>retrieve_documents\<close> returns it; and the documents that
  \<open>resolve_ticket\<close> returns, and gives to the generation, are the final documents of
  this pool for its rewritten queries.
\<close>

theorem final_documents_ranked:
  "length (final_documents all_docs) \<le> 4 \<and>
   length (final_documents all_docs) = min 4 (card (page_content ` set all_docs)) \<and>
   distinct (map page_content (final_documents all_docs)) \<and>
   list_all (last_occurrence all_docs) (final_documents all_docs) \<and>
   sorted_wrt ranks_no_lower (final_documents all_docs) \<and>
   (\<forall>e. last_occurrence all_docs e \<and> e \<notin> set (final_documents all_docs) \<longrightarrow>
        list_all (\<lambda>d. ranks_no_lower d e) (final_documents all_docs)) \<and>
   page_content ` {d. last_occurrence all_docs d} = page_content ` set all_docs \<and>
   (queries_loop env qs [] initial_best_eval = Inr (pooled, best_eval) \<longrightarrow>
      (\<exists>kept. list_all2 (\<lambda>q docs. \<exists>ev. retrieve_documents env q INITIAL_K FINAL_K = Inr (docs, ev)) qs kept \<and>
              pooled = concat kept)) \<and>
   (resolve_ticket env ticket_text call_text = Inr res \<longrightarrow>
      (\<exists>kept result.
         list_all2 (\<lambda>q docs. \<exists>ev. retrieve_documents env q INITIAL_K FINAL_K = Inr (docs, ev))
           (rewritten_queries res) kept \<and>
         reranked_docs res = final_documents (concat kept) \<and>
         generate_answer env ticket_text (final_documents (concat kept)) call_text = Inr result \<and>
         references res = references result))"
proof -
  let ?kvs = "dedup_loop all_docs []"
  let ?pool = "map snd ?kvs"
  let ?sorted = "sorted_reverse relevance_key ?pool"
  have fin: "final_documents all_docs = take 4 ?sorted"
    by (simp add: final_documents_def Let_def)
  have dist: "distinct (map fst ?kvs)" by (rule distinct_dedup_loop) simp
  have keys: "set (map fst ?kvs) = page_content ` set all_docs"
    using keys_dedup_loop [of all_docs "[]"] by simp
  have "length ?pool = length (map fst ?kvs)" by simp
  also have "\<dots> = card (set (map fst ?kvs))" using dist by (simp only: distinct_card)
  finally have len_pool: "length ?pool = card (page_content ` set all_docs)" by (simp only: keys)
  have len: "length (final_documents all_docs) = min 4 (card (page_content ` set all_docs))"
    using len_pool by (simp add: fin length_sorted_reverse min.commute)
  have d_sorted: "distinct (map page_content ?sorted)"
    using dist by (simp only: distinct_map_sorted_reverse pool_contents)
  have d_fin: "distinct (map page_content (final_documents all_docs))"
    using d_sorted by (simp only: fin take_map [symmetric] distinct_take)
  have set_sorted: "set ?sorted = {d. last_occurrence all_docs d}"
    by (simp only: set_sorted_reverse set_pool)
  have sub: "set (final_documents all_docs) \<subseteq> {d. last_occurrence all_docs d}"
    using set_take_subset [of 4 ?sorted] by (simp only: fin set_sorted)
  then have occ: "list_all (last_occurrence all_docs) (final_documents all_docs)"
    by (auto simp: list_all_iff)
  have rel: "(\<lambda>a b. relevance_key b \<le> relevance_key a) = ranks_no_lower"
    by (simp add: fun_eq_iff ranks_no_lower_key)
  have s_sorted: "sorted_wrt ranks_no_lower ?sorted"
    using sorted_sorted_reverse [of relevance_key ?pool] by (simp only: rel)
  then have s_fin: "sorted_wrt ranks_no_lower (final_documents all_docs)"
    by (simp only: fin sorted_wrt_take)
  have top: "\<forall>e. last_occurrence all_docs e \<and> e \<notin> set (final_documents all_docs) \<longrightarrow>
        list_all (\<lambda>d. ranks_no_lower d e) (final_documents all_docs)"
  proof (intro allI impI)
    fix e assume e: "last_occurrence all_docs e \<and> e \<notin> set (final_documents all_docs)"
    then have "e \<in> set ?sorted" by (simp add: set_sorted)
    then have "e \<in> set (take 4 ?sorted) \<union> set (drop 4 ?sorted)"
      by (simp only: set_append [symmetric] append_take_drop_id)
    with e have dr: "e \<in> set (drop 4 ?sorted)" by (simp add: fin)
    have "sorted_wrt ranks_no_lower (take 4 ?sorted @ drop 4 ?sorted)"
      using s_sorted by (simp only: append_take_drop_id)
    then have "\<forall>d\<in>set (take 4 ?sorted). \<forall>e\<in>set (drop 4 ?sorted). ranks_no_lower d e"
      by (simp only: sorted_wrt_append) blast
    with dr show "list_all (\<lambda>d. ranks_no_lower d e) (final_documents all_docs)"
      by (simp add: fin list_all_iff)
  qed
  have "page_content ` {d. last_occurrence all_docs d} = page_content ` set ?pool"
    by (simp only: set_pool)
  also have "\<dots> = set (map fst ?kvs)" by (simp only: pool_contents [symmetric] set_map)
  finally have cover: "page_content ` {d. last_occurrence all_docs d} = page_content ` set all_docs"
    by (simp only: keys)
  have loop: "\<exists>kept. list_all2 (\<lambda>q docs. \<exists>ev. retrieve_documents env q INITIAL_K FINAL_K = Inr (docs, ev)) qs kept \<and>
              pooled = concat kept"
    if "queries_loop env qs [] initial_best_eval = Inr (pooled, best_eval)"
    using queries_loop_kept [OF that] by simp
  have whole: "\<exists>kept result.
         list_all2 (\<lambda>q docs. \<exists>ev. retrieve_documents env q INITIAL_K FINAL_K = Inr (docs, ev))
           (rewritten_queries res) kept \<and>
         reranked_docs res = final_documents (concat kept) \<and>
         generate_answer env ticket_text (final_documents (concat kept)) call_text = Inr result \<and>
         references res = references result"
    if "resolve_ticket env ticket_text call_text = Inr res"
  proof -
    from resolve_ticket_Inr [OF that] obtain rewritten docs best result where
      l: "queries_loop env (if rewritten = [] then [ticket_text] else rewritten) []
            initial_best_eval = Inr (docs, best)" and
      g: "generate_answer env ticket_text (final_documents docs) call_text = Inr result" and
      r: "res = \<lparr>answer = answer (safety_override best result),
                references = references (safety_override best result),
                action_required = action_required (safety_override best result),
                rewritten_queries = (if rewritten = [] then [ticket_text] else rewritten),
                reranked_docs = final_documents docs, retrieval_eval = best\<rparr>"
      by blast
    from queries_loop_kept [OF l] obtain kept where
      k: "list_all2 (\<lambda>q docs. \<exists>ev. retrieve_documents env q INITIAL_K FINAL_K = Inr (docs, ev))
            (if rewritten = [] then [ticket_text] else rewritten) kept"
        "docs = concat kept" by auto
    from r have f: "rewritten_queries res = (if rewritten = [] then [ticket_text] else rewritten)"
      "reranked_docs res = final_documents docs" "references res = references result"
      by (simp_all add: safety_override_fields)
    show ?thesis
    proof (intro exI conjI)
      show "list_all2 (\<lambda>q docs. \<exists>ev. retrieve_documents env q INITIAL_K FINAL_K = Inr (docs, ev))
           (rewritten_queries res) kept" using k(1) by (simp only: f(1))
      show "reranked_docs res = final_documents (concat kept)" using f(2) by (simp only: k(2))
      show "generate_answer env ticket_text (final_documents (concat kept)) call_text = Inr result"
        using g by (simp only: k(2))
      show "references res = references result" by (rule f(3))
    qed
  qed
  from len have "length (final_documents all_docs) \<le> 4" by simp
  with len d_fin occ s_fin top cover loop whole show ?thesis by blast
qed

lemma example_final_documents:
  "final_documents
     [make_doc (str ''A'') 1, make_doc (str ''B'') 2, make_doc (str ''A'') 3, doc_plain (str ''C''),
      make_doc (str ''D'') (1 / 2), make_doc (str ''E'') 5] =
     [make_doc (str ''E'') 5, make_doc (str ''A'') 3, make_doc (str ''B'') 2, make_doc (str ''D'') (1 / 2)]"
  by (simp add: final_documents_def sorted_reverse_def relevance_key_def make_doc_def doc_plain_def
      str_def Let_def)

theorem final_documents_ranked_witness:
  "final_documents
     [make_doc (str ''A'') 1, make_doc (str ''B'') 2, make_doc (str ''A'') 3, doc_plain (str ''C''),
      make_doc (str ''D'') (1 / 2), make_doc (str ''E'') 5] =
     [make_doc (str ''E'') 5, make_doc (str ''A'') 3, make_doc (str ''B'') 2, make_doc (str ''D'') (1 / 2)] \<and>
   list_all
     (last_occurrence
        [make_doc (str ''A'') 1, make_doc (str ''B'') 2, make_doc (str ''A'') 3, doc_plain (str ''C''),
         make_doc (str ''D'') (1 / 2), make_doc (str ''E'') 5])
     [make_doc (str ''E'') 5, make_doc (str ''A'') 3, make_doc (str ''B'') 2, make_doc (str ''D'') (1 / 2)] \<and>
   sorted_wrt ranks_no_lower
     [make_doc (str ''E'') 5, make_doc (str ''A'') 3, make_doc (str ''B'') 2, make_doc (str ''D'') (1 / 2)] \<and>
   last_occurrence
     [make_doc (str ''A'') 1, make_doc (str ''B'') 2, make_doc (str ''A'') 3, doc_plain (str ''C''),
      make_doc (str ''D'') (1 / 2), make_doc (str ''E'') 5] (doc_plain (str ''C'')) \<and>
   list_all (\<lambda>d. ranks_no_lower d (doc_plain (str ''C'')))
     [make_doc (str ''E'') 5, make_doc (str ''A'') 3, make_doc (str ''B'') 2, make_doc (str ''D'') (1 / 2)] \<and>
   queries_loop mock_env_good [mock_q1, mock_q2] [] initial_best_eval =
     Inr ([make_doc (str ''doc'') (9 / 2), make_doc mock_q1 4,
           make_doc (str ''doc'') 5, make_doc mock_q2 4],
          evaluate_retrieval exact_ops [5, 4] [make_doc (str ''doc'') 5, make_doc mock_q2 4]) \<and>
   (\<exists>kept. list_all2 (\<lambda>q docs. \<exists>ev. retrieve_documents mock_env_good q INITIAL_K FINAL_K = Inr (docs, ev))
             [mock_q1, mock_q2] kept \<and>
           [make_doc (str ''doc'') (9 / 2), make_doc mock_q1 4,
            make_doc (str ''doc'') 5, make_doc mock_q2 4] = concat kept \<and>
           [make_doc (str ''doc'') 5, make_doc mock_q1 4, make_doc mock_q2 4] =
             final_documents (concat kept)) \<and>
   resolve_ticket mock_env_good (str ''Help'') (\<lambda>prompt. Some mock_raw) =
     Inr \<lparr>answer = str ''Test'',
          references = [str ''unknown: Unknown Doc | file=unknown_file'',
                        str ''unknown: Unknown Doc | file=unknown_file'',
                        str ''unknown: Unknown Doc | file=unknown_file''],
          action_required = str ''none'',
          rewritten_queries = [mock_q1, mock_q2],
          reranked_docs = [make_doc (str ''doc'') 5, make_doc mock_q1 4, make_doc mock_q2 4],
          retrieval_eval =
            evaluate_retrieval exact_ops [5, 4] [make_doc (str ''doc'') 5, make_doc mock_q2 4]\<rparr> \<and>
   (\<exists>kept. list_all2 (\<lambda>q docs. \<exists>ev. retrieve_documents mock_env_good q INITIAL_K FINAL_K = Inr (docs, ev))
             [mock_q1, mock_q2] kept \<and>
           [make_doc (str ''doc'') 5, make_doc mock_q1 4, make_doc mock_q2 4] =
             final_documents (concat kept) \<and>
           (\<exists>result. generate_answer mock_env_good (str ''Help'') (final_documents (concat kept))
                        (\<lambda>prompt. Some mock_raw) = Inr result))"
proof -
  let ?docs = "[make_doc (str ''A'') 1, make_doc (str ''B'') 2, make_doc (str ''A'') 3,
                doc_plain (str ''C''), make_doc (str ''D'') (1 / 2), make_doc (str ''E'') 5]"
  let ?fin = "[make_doc (str ''E'') 5, make_doc (str ''A'') 3, make_doc (str ''B'') 2,
               make_doc (str ''D'') (1 / 2)]"
  let ?pooled = "[make_doc (str ''doc'') (9 / 2), make_doc mock_q1 4,
                  make_doc (str ''doc'') 5, make_doc mock_q2 4]"
  let ?good = "evaluate_retrieval exact_ops [5, 4] [make_doc (str ''doc'') 5, make_doc mock_q2 4]"
  let ?res = "\<lparr>answer = str ''Test'',
      references = [str ''unknown: Unknown Doc | file=unknown_file'',
                    str ''unknown: Unknown Doc | file=unknown_file'',
                    str ''unknown: Unknown Doc | file=unknown_file''],
      action_required = str ''none'',
      rewritten_queries = [mock_q1, mock_q2],
      reranked_docs = [make_doc (str ''doc'') 5, make_doc mock_q1 4, make_doc mock_q2 4],
      retrieval_eval = ?good\<rparr>"
  note t = final_documents_ranked [of ?docs mock_env_good "[mock_q1, mock_q2]" ?pooled ?good
      "str ''Help''" "\<lambda>prompt. Some mock_raw" ?res]
  have c: "last_occurrence ?docs (doc_plain (str ''C''))"
    by (simp add: last_occurrence_def make_doc_def doc_plain_def str_def)
  have nc: "doc_plain (str ''C'') \<notin> set ?fin"
    by (simp add: make_doc_def doc_plain_def str_def)
  from t have a: "list_all (last_occurrence ?docs) ?fin" "sorted_wrt ranks_no_lower ?fin"
    by (simp_all only: example_final_documents)
  from t c nc have b: "list_all (\<lambda>d. ranks_no_lower d (doc_plain (str ''C''))) ?fin"
    unfolding example_final_documents by blast
  from t mock_queries_loop_good obtain kept where
    k: "list_all2 (\<lambda>q docs. \<exists>ev. retrieve_documents mock_env_good q INITIAL_K FINAL_K = Inr (docs, ev))
          [mock_q1, mock_q2] kept" "?pooled = concat kept" by blast
  have "[make_doc (str ''doc'') 5, make_doc mock_q1 4, make_doc mock_q2 4] = final_documents (concat kept)"
    by (simp only: k(2) [symmetric] mock_final_documents_good)
  with k have ex: "\<exists>kept. list_all2 (\<lambda>q docs. \<exists>ev. retrieve_documents mock_env_good q INITIAL_K FINAL_K = Inr (docs, ev))
             [mock_q1, mock_q2] kept \<and> ?pooled = concat kept \<and>
           [make_doc (str ''doc'') 5, make_doc mock_q1 4, make_doc mock_q2 4] =
             final_documents (concat kept)" by blast
  from t mock_resolve_ticket_good obtain kept' result where
    k': "list_all2 (\<lambda>q docs. \<exists>ev. retrieve_documents mock_env_good q INITIAL_K FINAL_K = Inr (docs, ev))
          (rewritten_queries ?res) kept'"
      "reranked_docs ?res = final_documents (concat kept')"
      "generate_answer mock_env_good (str ''Help'') (final_documents (concat kept'))
         (\<lambda>prompt. Some mock_raw) = Inr result" by blast
  have ex': "\<exists>kept. list_all2 (\<lambda>q docs. \<exists>ev. retrieve_documents mock_env_good q INITIAL_K FINAL_K = Inr (docs, ev))
             [mock_q1, mock_q2] kept \<and>
           [make_doc (str ''doc'') 5, make_doc mock_q1 4, make_doc mock_q2 4] =
             final_documents (concat kept) \<and>
           (\<exists>result. generate_answer mock_env_good (str ''Help'') (final_documents (concat kept))
                        (\<lambda>prompt. Some mock_raw) = Inr result)"
  proof (intro exI conjI)
    show "list_all2 (\<lambda>q docs. \<exists>ev. retrieve_documents mock_env_good q INITIAL_K FINAL_K = Inr (docs, ev))
             [mock_q1, mock_q2] kept'" using k'(1) by simp
    show "[make_doc (str ''doc'') 5, make_doc mock_q1 4, make_doc mock_q2 4] =
             final_documents (concat kept')" using k'(2) by simp
    show "generate_answer mock_env_good (str ''Help'') (final_documents (concat kept'))
            (\<lambda>prompt. Some mock_raw) = Inr result" by (rule k'(3))
  qed
  from example_final_documents a c b mock_queries_loop_good ex mock_resolve_ticket_good ex'
  show ?thesis by (intro conjI)
qed

section \<open>Action inference\<close>
















end
